theory Spec2Isabelle
  imports Complex_Main
begin

section \<open>Data model (types.ts)\<close>

text \<open>
  The TypeScript type \<^verbatim>\<open>number\<close> is modelled by \<^typ>\<open>real\<close> where the value is a
  measured quantity or a configuration value, and by \<^typ>\<open>int\<close> where the value is a
  counter, an identifier or an array index that the code only ever builds from integer
  literals by \<^verbatim>\<open>++\<close> or \<^verbatim>\<open>+ 1\<close>. The overlap score is translated twice: with
  exact arithmetic, as the tracker uses it to pick indices, and with every operation
  rounded to a double, for what is said about its values. NaN, infinities and overflow
  of IEEE doubles are outside the model. Field names carry a prefix where the plain name
  is a constant of HOL or is shared between two interfaces.
\<close>

record BoundingBox3D =
  box_x :: real
  box_y :: real
  box_z :: real
  box_width :: real
  box_height :: real
  box_length :: real
  box_orientation :: real

record Detection =
  det_id :: "int option"
  det_bbox :: BoundingBox3D
  confidence :: real
  classId :: "int option"

section \<open>Geometry (utils.ts)\<close>

definition calculateIntersection3D :: "BoundingBox3D \<Rightarrow> BoundingBox3D \<Rightarrow> real" where
  "calculateIntersection3D bbox1 bbox2 =
     (let x1Min = box_x bbox1 - box_width bbox1 / 2;
          x1Max = box_x bbox1 + box_width bbox1 / 2;
          y1Min = box_y bbox1 - box_height bbox1 / 2;
          y1Max = box_y bbox1 + box_height bbox1 / 2;
          z1Min = box_z bbox1 - box_length bbox1 / 2;
          z1Max = box_z bbox1 + box_length bbox1 / 2;
          x2Min = box_x bbox2 - box_width bbox2 / 2;
          x2Max = box_x bbox2 + box_width bbox2 / 2;
          y2Min = box_y bbox2 - box_height bbox2 / 2;
          y2Max = box_y bbox2 + box_height bbox2 / 2;
          z2Min = box_z bbox2 - box_length bbox2 / 2;
          z2Max = box_z bbox2 + box_length bbox2 / 2;
          xOverlap = max 0 (min x1Max x2Max - max x1Min x2Min);
          yOverlap = max 0 (min y1Max y2Max - max y1Min y2Min);
          zOverlap = max 0 (min z1Max z2Max - max z1Min z2Min)
      in xOverlap * yOverlap * zOverlap)"

definition calculate3DIoU :: "BoundingBox3D \<Rightarrow> BoundingBox3D \<Rightarrow> real" where
  "calculate3DIoU bbox1 bbox2 =
     (let intersection = calculateIntersection3D bbox1 bbox2;
          volume1 = box_width bbox1 * box_height bbox1 * box_length bbox1;
          volume2 = box_width bbox2 * box_height bbox2 * box_length bbox2;
          union = volume1 + volume2 - intersection
      in if union > 0 then intersection / union else 0)"

definition pos_extents :: "BoundingBox3D \<Rightarrow> bool" where
  "pos_extents b = (0 < box_width b \<and> 0 < box_height b \<and> 0 < box_length b)"

definition mkBox :: "real \<Rightarrow> real \<Rightarrow> real \<Rightarrow> real \<Rightarrow> real \<Rightarrow> real \<Rightarrow> BoundingBox3D" where
  "mkBox cx cy cz w h l =
     \<lparr>box_x = cx, box_y = cy, box_z = cz, box_width = w, box_height = h,
      box_length = l, box_orientation = 0\<rparr>"

subsection \<open>The same computation in doubles\<close>

text \<open>
  \<open>double_round\<close> rounds a real to the nearest number with a significand of 53 bits,
  ties to the even significand, as IEEE 754 binary64 does in its normal range; the
  exponent is unbounded, so overflow, subnormal numbers, NaN and infinities are left
  out. \<open>calculate3DIoU_rnd\<close> is \<^verbatim>\<open>calculate3DIoU\<close> of utils.ts with the result of
  every \<^verbatim>\<open>+\<close>, \<^verbatim>\<open>-\<close>, \<^verbatim>\<open>*\<close> and \<^verbatim>\<open>/\<close> passed through a rounding function, in
  the order in which the source evaluates them (\<^verbatim>\<open>Math.min\<close> and \<^verbatim>\<open>Math.max\<close> do not
  round); with \<open>double_round\<close> it is the value the code computes. \<open>self_exact\<close> says
  that no step of the overlap of a box with itself rounds.
\<close>

definition roundHalfEven :: "real \<Rightarrow> int" where
  "roundHalfEven y =
     (let f = \<lfloor>y\<rfloor>; d = y - of_int f in
      if d < 1 / 2 then f else if 1 / 2 < d then f + 1 else if even f then f else f + 1)"

definition double_round :: "real \<Rightarrow> real" where
  "double_round v =
     (if v = 0 then 0
      else let e = \<lfloor>log 2 \<bar>v\<bar>\<rfloor>; u = 2 powr (of_int e - 52)
           in u * of_int (roundHalfEven (v / u)))"

definition calculateIntersection3D_rnd :: "(real \<Rightarrow> real) \<Rightarrow> BoundingBox3D \<Rightarrow> BoundingBox3D \<Rightarrow> real" where
  "calculateIntersection3D_rnd rnd bbox1 bbox2 =
     (let x1Min = rnd (box_x bbox1 - rnd (box_width bbox1 / 2));
          x1Max = rnd (box_x bbox1 + rnd (box_width bbox1 / 2));
          y1Min = rnd (box_y bbox1 - rnd (box_height bbox1 / 2));
          y1Max = rnd (box_y bbox1 + rnd (box_height bbox1 / 2));
          z1Min = rnd (box_z bbox1 - rnd (box_length bbox1 / 2));
          z1Max = rnd (box_z bbox1 + rnd (box_length bbox1 / 2));
          x2Min = rnd (box_x bbox2 - rnd (box_width bbox2 / 2));
          x2Max = rnd (box_x bbox2 + rnd (box_width bbox2 / 2));
          y2Min = rnd (box_y bbox2 - rnd (box_height bbox2 / 2));
          y2Max = rnd (box_y bbox2 + rnd (box_height bbox2 / 2));
          z2Min = rnd (box_z bbox2 - rnd (box_length bbox2 / 2));
          z2Max = rnd (box_z bbox2 + rnd (box_length bbox2 / 2));
          xOverlap = max 0 (rnd (min x1Max x2Max - max x1Min x2Min));
          yOverlap = max 0 (rnd (min y1Max y2Max - max y1Min y2Min));
          zOverlap = max 0 (rnd (min z1Max z2Max - max z1Min z2Min))
      in rnd (rnd (xOverlap * yOverlap) * zOverlap))"

definition calculate3DIoU_rnd :: "(real \<Rightarrow> real) \<Rightarrow> BoundingBox3D \<Rightarrow> BoundingBox3D \<Rightarrow> real" where
  "calculate3DIoU_rnd rnd bbox1 bbox2 =
     (let intersection = calculateIntersection3D_rnd rnd bbox1 bbox2;
          volume1 = rnd (rnd (box_width bbox1 * box_height bbox1) * box_length bbox1);
          volume2 = rnd (rnd (box_width bbox2 * box_height bbox2) * box_length bbox2);
          union = rnd (rnd (volume1 + volume2) - intersection)
      in if union > 0 then rnd (intersection / union) else 0)"

definition calculate3DIoU_double :: "BoundingBox3D \<Rightarrow> BoundingBox3D \<Rightarrow> real" where
  "calculate3DIoU_double = calculate3DIoU_rnd double_round"

definition zero_extent :: "BoundingBox3D \<Rightarrow> bool" where
  "zero_extent b = (box_width b = 0 \<or> box_height b = 0 \<or> box_length b = 0)"

definition self_exact :: "(real \<Rightarrow> real) \<Rightarrow> BoundingBox3D \<Rightarrow> bool" where
  "self_exact rnd b =
     list_all (\<lambda>v. rnd v = v)
       [box_width b / 2, box_height b / 2, box_length b / 2,
        box_x b + box_width b / 2, box_x b - box_width b / 2,
        box_y b + box_height b / 2, box_y b - box_height b / 2,
        box_z b + box_length b / 2, box_z b - box_length b / 2,
        box_width b, box_height b, box_length b,
        box_width b * box_height b,
        box_width b * box_height b * box_length b,
        box_width b * box_height b * box_length b + box_width b * box_height b * box_length b,
        1]"

definition farBox :: BoundingBox3D where
  "farBox = mkBox (2 ^ 53 + 2) 0 0 3 2 2"

section \<open>State estimator (kalman.ts)\<close>

text \<open>
  The class keeps a state vector of length 6 and a 6 by 6 covariance: the constructor
  builds them so and both methods return the same shapes. The matrix helpers are
  translated loop by loop over lists; a read outside an array, which yields
  \<^verbatim>\<open>undefined\<close> in the source, does not occur at these shapes.
\<close>

datatype error = SingularMatrix | UnsupportedMatrixSize | TypeError

record KalmanFilter3D =
  state :: "real list"
  covariance :: "real list list"
  processNoise :: real
  measurementNoise :: real

definition KalmanFilter3D_new :: "BoundingBox3D \<Rightarrow> real \<Rightarrow> real \<Rightarrow> KalmanFilter3D" where
  "KalmanFilter3D_new initialBbox q r =
     \<lparr>state = [box_x initialBbox, box_y initialBbox, box_z initialBbox, 0, 0, 0],
      covariance =
        [[1, 0, 0, 0, 0, 0],
         [0, 1, 0, 0, 0, 0],
         [0, 0, 1, 0, 0, 0],
         [0, 0, 0, 1, 0, 0],
         [0, 0, 0, 0, 1, 0],
         [0, 0, 0, 0, 0, 1]],
      processNoise = q,
      measurementNoise = r\<rparr>"

definition columns :: "real list list \<Rightarrow> nat" where
  "columns A = (case A of [] \<Rightarrow> 0 | r # _ \<Rightarrow> length r)"

definition matrixMultiply :: "real list list \<Rightarrow> real list list \<Rightarrow> real list list" where
  "matrixMultiply A B =
     map (\<lambda>i. map (\<lambda>j. foldl (\<lambda>acc k. acc + A ! i ! k * B ! k ! j) 0 [0..<length B])
                 [0..<columns B])
         [0..<length A]"

definition matrixVectorMultiply :: "real list list \<Rightarrow> real list \<Rightarrow> real list" where
  "matrixVectorMultiply A v =
     map (\<lambda>i. foldl (\<lambda>acc j. acc + A ! i ! j * v ! j) 0 [0..<length v]) [0..<length A]"

definition matrixTranspose :: "real list list \<Rightarrow> real list list" where
  "matrixTranspose A = map (\<lambda>i. map (\<lambda>j. A ! j ! i) [0..<length A]) [0..<columns A]"

definition matrixAdd :: "real list list \<Rightarrow> real list list \<Rightarrow> real list list" where
  "matrixAdd A B =
     map (\<lambda>i. map (\<lambda>j. A ! i ! j + B ! i ! j) [0..<length (A ! i)]) [0..<length A]"

definition matrixSubtract :: "real list list \<Rightarrow> real list list \<Rightarrow> real list list" where
  "matrixSubtract A B =
     map (\<lambda>i. map (\<lambda>j. A ! i ! j - B ! i ! j) [0..<length (A ! i)]) [0..<length A]"

definition createIdentityMatrix :: "nat \<Rightarrow> real list list" where
  "createIdentityMatrix n = map (\<lambda>i. map (\<lambda>j. if i = j then 1 else 0) [0..<n]) [0..<n]"

definition determinant3 :: "real list list \<Rightarrow> real" where
  "determinant3 A =
     A ! 0 ! 0 * (A ! 1 ! 1 * A ! 2 ! 2 - A ! 1 ! 2 * A ! 2 ! 1) -
     A ! 0 ! 1 * (A ! 1 ! 0 * A ! 2 ! 2 - A ! 1 ! 2 * A ! 2 ! 0) +
     A ! 0 ! 2 * (A ! 1 ! 0 * A ! 2 ! 1 - A ! 1 ! 1 * A ! 2 ! 0)"

definition matrixInverse :: "real list list \<Rightarrow> error + real list list" where
  "matrixInverse A =
     (if length A \<noteq> 3 \<or> columns A \<noteq> 3 then Inl UnsupportedMatrixSize
      else let det = determinant3 A in
        if \<bar>det\<bar> < 1 / 10 ^ 10 then Inl SingularMatrix
        else let invDet = 1 / det in
          Inr [[(A ! 1 ! 1 * A ! 2 ! 2 - A ! 1 ! 2 * A ! 2 ! 1) * invDet,
                (A ! 0 ! 2 * A ! 2 ! 1 - A ! 0 ! 1 * A ! 2 ! 2) * invDet,
                (A ! 0 ! 1 * A ! 1 ! 2 - A ! 0 ! 2 * A ! 1 ! 1) * invDet],
               [(A ! 1 ! 2 * A ! 2 ! 0 - A ! 1 ! 0 * A ! 2 ! 2) * invDet,
                (A ! 0 ! 0 * A ! 2 ! 2 - A ! 0 ! 2 * A ! 2 ! 0) * invDet,
                (A ! 0 ! 2 * A ! 1 ! 0 - A ! 0 ! 0 * A ! 1 ! 2) * invDet],
               [(A ! 1 ! 0 * A ! 2 ! 1 - A ! 1 ! 1 * A ! 2 ! 0) * invDet,
                (A ! 0 ! 1 * A ! 2 ! 0 - A ! 0 ! 0 * A ! 2 ! 1) * invDet,
                (A ! 0 ! 0 * A ! 1 ! 1 - A ! 0 ! 1 * A ! 1 ! 0) * invDet]])"

definition createProcessNoiseMatrix :: "KalmanFilter3D \<Rightarrow> real \<Rightarrow> real list list" where
  "createProcessNoiseMatrix kf dt =
     (let q = processNoise kf;
          dt2 = dt * dt;
          dt3 = dt2 * dt;
          dt4 = dt3 * dt
      in [[dt4 / 4 * q, 0, 0, dt3 / 2 * q, 0, 0],
          [0, dt4 / 4 * q, 0, 0, dt3 / 2 * q, 0],
          [0, 0, dt4 / 4 * q, 0, 0, dt3 / 2 * q],
          [dt3 / 2 * q, 0, 0, dt2 * q, 0, 0],
          [0, dt3 / 2 * q, 0, 0, dt2 * q, 0],
          [0, 0, dt3 / 2 * q, 0, 0, dt2 * q]])"

definition transitionMatrix :: "real \<Rightarrow> real list list" where
  "transitionMatrix dt =
     [[1, 0, 0, dt, 0, 0],
      [0, 1, 0, 0, dt, 0],
      [0, 0, 1, 0, 0, dt],
      [0, 0, 0, 1, 0, 0],
      [0, 0, 0, 0, 1, 0],
      [0, 0, 0, 0, 0, 1]]"

definition predict :: "real \<Rightarrow> KalmanFilter3D \<Rightarrow> KalmanFilter3D" where
  "predict dt kf =
     (let F = transitionMatrix dt;
          state' = matrixVectorMultiply F (state kf);
          Q = createProcessNoiseMatrix kf dt
      in kf\<lparr>state := state',
            covariance :=
              matrixAdd (matrixMultiply (matrixMultiply F (covariance kf)) (matrixTranspose F)) Q\<rparr>)"

definition measurementMatrix :: "real list list" where
  "measurementMatrix =
     [[1, 0, 0, 0, 0, 0],
      [0, 1, 0, 0, 0, 0],
      [0, 0, 1, 0, 0, 0]]"

definition innovationCovariance :: "KalmanFilter3D \<Rightarrow> real list list" where
  "innovationCovariance kf =
     (let H = measurementMatrix;
          R = [[measurementNoise kf, 0, 0],
               [0, measurementNoise kf, 0],
               [0, 0, measurementNoise kf]];
          Ht = matrixTranspose H
      in matrixAdd (matrixMultiply (matrixMultiply H (covariance kf)) Ht) R)"

definition kalman_update :: "real \<times> real \<times> real \<Rightarrow> KalmanFilter3D \<Rightarrow> error + KalmanFilter3D" where
  "kalman_update measurement kf =
     (let H = measurementMatrix;
          Ht = matrixTranspose H;
          S = innovationCovariance kf
      in case matrixInverse S of
           Inl e \<Rightarrow> Inl e
         | Inr Sinv \<Rightarrow>
            (let K = matrixMultiply (matrixMultiply (covariance kf) Ht) Sinv;
                 predictedMeasurement = matrixVectorMultiply H (state kf);
                 residual = [fst measurement - predictedMeasurement ! 0,
                             fst (snd measurement) - predictedMeasurement ! 1,
                             snd (snd measurement) - predictedMeasurement ! 2];
                 correction = matrixVectorMultiply K residual;
                 state' = map (\<lambda>i. state kf ! i + correction ! i) [0..<length (state kf)];
                 I = createIdentityMatrix 6;
                 KH = matrixMultiply K H;
                 IminusKH = matrixSubtract I KH
             in Inr (kf\<lparr>state := state', covariance := matrixMultiply IminusKH (covariance kf)\<rparr>)))"

definition getPosition :: "KalmanFilter3D \<Rightarrow> real \<times> real \<times> real" where
  "getPosition kf = (state kf ! 0, state kf ! 1, state kf ! 2)"

definition getVelocity :: "KalmanFilter3D \<Rightarrow> real \<times> real \<times> real" where
  "getVelocity kf = (state kf ! 3, state kf ! 4, state kf ! 5)"

definition kalman_shape :: "KalmanFilter3D \<Rightarrow> bool" where
  "kalman_shape kf =
     (length (state kf) = 6 \<and> length (covariance kf) = 6 \<and>
      list_all (\<lambda>row. length row = 6) (covariance kf))"

section \<open>Track lifecycle manager (index.ts)\<close>

text \<open>
  The repository holds two versions of the tracker class. The file \<^verbatim>\<open>src/index.ts\<close>
  has \<^verbatim>\<open>step\<close> and \<^verbatim>\<open>update\<close>, no estimator, and spawns before it prunes; the
  later version of the same file adds the estimator, drops \<^verbatim>\<open>update\<close> and prunes before
  it spawns. The loops of both versions are the same text; they differ in what is done to
  one track inside the loop, so each loop is translated once and takes that body as an
  argument. Definitions of the earlier version carry the suffix \<open>_ix\<close>. A third, oldest
  copy of the class has empty method bodies and is not modelled.

  A track stores the \<^verbatim>\<open>bbox\<close> object of the detection it was matched with, and
  \<^verbatim>\<open>predictTracks\<close> writes into that object. The model copies values: every frame is
  taken to arrive with detection objects of its own.
\<close>

record Track =
  trk_id :: int
  trk_bbox :: BoundingBox3D
  velocity :: "real \<times> real \<times> real"
  age :: int
  hits :: int
  timeSinceUpdate :: int
  kalmanFilter :: "KalmanFilter3D option"

record TrackedDetection = Detection +
  trackId :: int

record TrackerOptions =
  opt_maxAge :: "real option"
  opt_minHits :: "real option"
  opt_iouThreshold :: "real option"
  opt_data :: "Detection list list option"

record AB3DMOTTracker =
  tracks :: "Track list"
  nextTrackId :: int
  maxAge :: real
  minHits :: real
  iouThreshold :: real
  frames :: "Detection list list"

definition nullish :: "'a option \<Rightarrow> 'a \<Rightarrow> 'a" where
  "nullish v d = (case v of None \<Rightarrow> d | Some a \<Rightarrow> a)"

definition fieldInitialisers :: AB3DMOTTracker where
  "fieldInitialisers =
     \<lparr>tracks = [], nextTrackId = 1, maxAge = 3, minHits = 3, iouThreshold = 3 / 10,
      frames = []\<rparr>"

definition AB3DMOTTracker_init :: "TrackerOptions option \<Rightarrow> AB3DMOTTracker" where
  "AB3DMOTTracker_init options =
     (let this = fieldInitialisers in
      case options of
        None \<Rightarrow> this
      | Some opts \<Rightarrow>
          this\<lparr>maxAge := nullish (opt_maxAge opts) (maxAge this),
               minHits := nullish (opt_minHits opts) (minHits this),
               iouThreshold := nullish (opt_iouThreshold opts) (iouThreshold this),
               frames := nullish (opt_data opts) (frames this)\<rparr>)"

text \<open>
  The outcome of \<^verbatim>\<open>new AB3DMOTTracker(options)\<close> as a value that could be an error:
  the constructor has no \<^verbatim>\<open>throw\<close> statement and calls nothing, so the outcome is
  always the object.
\<close>

definition AB3DMOTTracker_new :: "TrackerOptions option \<Rightarrow> error + AB3DMOTTracker" where
  "AB3DMOTTracker_new options = Inr (AB3DMOTTracker_init options)"

subsection \<open>predictTracks\<close>

definition predictTrack_ix :: "Track \<Rightarrow> Track" where
  "predictTrack_ix track =
     track\<lparr>age := age track + 1, timeSinceUpdate := timeSinceUpdate track + 1\<rparr>"

definition predictTrack :: "Track \<Rightarrow> Track" where
  "predictTrack track =
     (let t1 = track\<lparr>age := age track + 1, timeSinceUpdate := timeSinceUpdate track + 1\<rparr> in
      case kalmanFilter t1 of
        None \<Rightarrow> t1
      | Some kf \<Rightarrow>
          (let kf' = predict 1 kf in
           case (getPosition kf', getVelocity kf') of
             ((px, py, pz), v) \<Rightarrow>
               t1\<lparr>trk_bbox := (trk_bbox t1)\<lparr>box_x := px, box_y := py, box_z := pz\<rparr>,
                  velocity := v,
                  kalmanFilter := Some kf'\<rparr>))"

definition predictTracks_ix :: "AB3DMOTTracker \<Rightarrow> AB3DMOTTracker" where
  "predictTracks_ix this = this\<lparr>tracks := map predictTrack_ix (tracks this)\<rparr>"

definition predictTracks :: "AB3DMOTTracker \<Rightarrow> AB3DMOTTracker" where
  "predictTracks this = this\<lparr>tracks := map predictTrack (tracks this)\<rparr>"

subsection \<open>associateDetections\<close>

fun bestTrack :: "BoundingBox3D \<Rightarrow> Track list \<Rightarrow> int set \<Rightarrow> nat list \<Rightarrow> int \<times> real \<Rightarrow> int \<times> real" where
  "bestTrack b ts usedTracks [] best = best"
| "bestTrack b ts usedTracks (t # rest) (bestTrackIndex, bestIoU) =
     (if int t \<in> usedTracks then bestTrack b ts usedTracks rest (bestTrackIndex, bestIoU)
      else let iou = calculate3DIoU b (trk_bbox (ts ! t)) in
        if iou > bestIoU then bestTrack b ts usedTracks rest (int t, iou)
        else bestTrack b ts usedTracks rest (bestTrackIndex, bestIoU))"

fun associateLoop :: "AB3DMOTTracker \<Rightarrow> Detection list \<Rightarrow> nat list \<Rightarrow> int list \<times> int set \<Rightarrow> int list \<times> int set" where
  "associateLoop this ds [] acc = acc"
| "associateLoop this ds (i # rest) (assignments, usedTracks) =
     (case bestTrack (det_bbox (ds ! i)) (tracks this) usedTracks [0..<length (tracks this)] (- 1, - 1) of
        (bestTrackIndex, bestIoU) \<Rightarrow>
          if bestTrackIndex \<noteq> - 1 \<and> bestIoU \<ge> iouThreshold this
          then associateLoop this ds rest
                 (assignments[i := bestTrackIndex], insert bestTrackIndex usedTracks)
          else associateLoop this ds rest (assignments, usedTracks))"

definition associateDetections :: "AB3DMOTTracker \<Rightarrow> Detection list \<Rightarrow> int list" where
  "associateDetections this detections =
     fst (associateLoop this detections [0..<length detections]
            (replicate (length detections) (- 1), {}))"

subsection \<open>updateTracks\<close>

definition matchTrack_ix :: "Detection \<Rightarrow> Track \<Rightarrow> error option \<times> Track" where
  "matchTrack_ix detection track =
     (None, track\<lparr>trk_bbox := det_bbox detection, timeSinceUpdate := 0, hits := hits track + 1\<rparr>)"

definition matchTrack :: "Detection \<Rightarrow> Track \<Rightarrow> error option \<times> Track" where
  "matchTrack detection track =
     (let t1 = track\<lparr>trk_bbox := det_bbox detection, timeSinceUpdate := 0,
                     hits := hits track + 1\<rparr> in
      case kalmanFilter t1 of
        None \<Rightarrow> (None, t1)
      | Some kf \<Rightarrow>
          (case kalman_update (box_x (det_bbox detection), box_y (det_bbox detection),
                               box_z (det_bbox detection)) kf of
             Inl e \<Rightarrow> (Some e, t1)
           | Inr kf' \<Rightarrow> (None, t1\<lparr>kalmanFilter := Some kf'\<rparr>)))"

text \<open>
  The loop of \<^verbatim>\<open>updateTracks\<close>. An exception leaves the loop at once; the table is
  returned as it stands at that moment together with the error. Reading
  \<^verbatim>\<open>this.tracks[trackIndex]\<close> outside the table gives \<^verbatim>\<open>undefined\<close>, and the
  assignment to its \<^verbatim>\<open>bbox\<close> is a TypeError.
\<close>

fun updateLoop :: "(Detection \<Rightarrow> Track \<Rightarrow> error option \<times> Track) \<Rightarrow> Detection list \<Rightarrow> int list \<Rightarrow> nat list \<Rightarrow> Track list \<Rightarrow> error option \<times> Track list" where
  "updateLoop body ds asg [] ts = (None, ts)"
| "updateLoop body ds asg (i # rest) ts =
     (let trackIndex = asg ! i in
      if trackIndex \<noteq> - 1 then
        (if 0 \<le> trackIndex \<and> nat trackIndex < length ts then
           (case body (ds ! i) (ts ! nat trackIndex) of
              (None, track) \<Rightarrow> updateLoop body ds asg rest (ts[nat trackIndex := track])
            | (Some e, track) \<Rightarrow> (Some e, ts[nat trackIndex := track]))
         else (Some TypeError, ts))
      else updateLoop body ds asg rest ts)"

definition updateTracks_ix :: "AB3DMOTTracker \<Rightarrow> Detection list \<Rightarrow> int list \<Rightarrow> error option \<times> AB3DMOTTracker" where
  "updateTracks_ix this detections assignments =
     (case updateLoop matchTrack_ix detections assignments [0..<length detections] (tracks this) of
        (e, ts) \<Rightarrow> (e, this\<lparr>tracks := ts\<rparr>))"

definition updateTracks :: "AB3DMOTTracker \<Rightarrow> Detection list \<Rightarrow> int list \<Rightarrow> error option \<times> AB3DMOTTracker" where
  "updateTracks this detections assignments =
     (case updateLoop matchTrack detections assignments [0..<length detections] (tracks this) of
        (e, ts) \<Rightarrow> (e, this\<lparr>tracks := ts\<rparr>))"

subsection \<open>createNewTracks\<close>

definition newTrack_ix :: "int \<Rightarrow> Detection \<Rightarrow> Track" where
  "newTrack_ix newId detection =
     \<lparr>trk_id = newId, trk_bbox = det_bbox detection, velocity = (0, 0, 0), age = 1, hits = 1,
      timeSinceUpdate = 0, kalmanFilter = None\<rparr>"

definition newTrack :: "int \<Rightarrow> Detection \<Rightarrow> Track" where
  "newTrack newId detection =
     (let kf = KalmanFilter3D_new (det_bbox detection) (1 / 10) (1 / 10) in
      \<lparr>trk_id = newId, trk_bbox = det_bbox detection, velocity = (0, 0, 0), age = 1, hits = 1,
       timeSinceUpdate = 0, kalmanFilter = Some kf\<rparr>)"

fun createLoop :: "(int \<Rightarrow> Detection \<Rightarrow> Track) \<Rightarrow> Detection list \<Rightarrow> int list \<Rightarrow> nat list \<Rightarrow> (nat \<rightharpoonup> int) \<times> Track list \<times> int \<Rightarrow> (nat \<rightharpoonup> int) \<times> Track list \<times> int" where
  "createLoop mk ds asg [] acc = acc"
| "createLoop mk ds asg (i # rest) (newMap, ts, nextId) =
     (if asg ! i = - 1
      then createLoop mk ds asg rest (newMap(i \<mapsto> nextId), ts @ [mk nextId (ds ! i)], nextId + 1)
      else createLoop mk ds asg rest (newMap, ts, nextId))"

definition createNewTracks_ix :: "AB3DMOTTracker \<Rightarrow> Detection list \<Rightarrow> int list \<Rightarrow> (nat \<rightharpoonup> int) \<times> AB3DMOTTracker" where
  "createNewTracks_ix this detections assignments =
     (case createLoop newTrack_ix detections assignments [0..<length detections]
             (Map.empty, tracks this, nextTrackId this) of
        (newMap, ts, nextId) \<Rightarrow> (newMap, this\<lparr>tracks := ts, nextTrackId := nextId\<rparr>))"

definition createNewTracks :: "AB3DMOTTracker \<Rightarrow> Detection list \<Rightarrow> int list \<Rightarrow> (nat \<rightharpoonup> int) \<times> AB3DMOTTracker" where
  "createNewTracks this detections assignments =
     (case createLoop newTrack detections assignments [0..<length detections]
             (Map.empty, tracks this, nextTrackId this) of
        (newMap, ts, nextId) \<Rightarrow> (newMap, this\<lparr>tracks := ts, nextTrackId := nextId\<rparr>))"

subsection \<open>deleteOldTracks\<close>

definition deleteOldTracks :: "AB3DMOTTracker \<Rightarrow> AB3DMOTTracker" where
  "deleteOldTracks this =
     this\<lparr>tracks := filter (\<lambda>track. real_of_int (timeSinceUpdate track) \<le> maxAge this) (tracks this)\<rparr>"

subsection \<open>step, update and run\<close>

definition trackIdAt :: "Track list \<Rightarrow> int \<Rightarrow> int option" where
  "trackIdAt ts a = (if 0 \<le> a \<and> nat a < length ts then Some (trk_id (ts ! nat a)) else None)"

definition tracked :: "Detection \<Rightarrow> int \<Rightarrow> TrackedDetection" where
  "tracked d tid =
     \<lparr>det_id = det_id d, det_bbox = det_bbox d, confidence = confidence d, classId = classId d,
      trackId = tid\<rparr>"

fun assembleLoop :: "Track list \<Rightarrow> Detection list \<Rightarrow> int list \<Rightarrow> (nat \<rightharpoonup> int) \<Rightarrow> nat list \<Rightarrow> TrackedDetection list \<Rightarrow> TrackedDetection list" where
  "assembleLoop ts ds asg newMap [] result = result"
| "assembleLoop ts ds asg newMap (i # rest) result =
     (let assignedTrackIndex = asg ! i in
      case (if assignedTrackIndex \<noteq> - 1 then trackIdAt ts assignedTrackIndex else None) of
        Some tid \<Rightarrow> assembleLoop ts ds asg newMap rest (result @ [tracked (ds ! i) tid])
      | None \<Rightarrow>
          (case newMap i of
             Some createdId \<Rightarrow> assembleLoop ts ds asg newMap rest (result @ [tracked (ds ! i) createdId])
           | None \<Rightarrow> assembleLoop ts ds asg newMap rest result))"

definition assembleOutput :: "AB3DMOTTracker \<Rightarrow> Detection list \<Rightarrow> int list \<Rightarrow> (nat \<rightharpoonup> int) \<Rightarrow> TrackedDetection list" where
  "assembleOutput this detections assignments newTrackMap =
     assembleLoop (tracks this) detections assignments newTrackMap [0..<length detections] []"

definition step_ix :: "AB3DMOTTracker \<Rightarrow> Detection list \<Rightarrow> (error + TrackedDetection list) \<times> AB3DMOTTracker" where
  "step_ix this detections =
     (let s1 = predictTracks_ix this;
          assignments = associateDetections s1 detections in
      case updateTracks_ix s1 detections assignments of
        (Some e, s2) \<Rightarrow> (Inl e, s2)
      | (None, s2) \<Rightarrow>
          (case createNewTracks_ix s2 detections assignments of
             (newTrackMap, s3) \<Rightarrow>
               (let s4 = deleteOldTracks s3 in
                (Inr (assembleOutput s4 detections assignments newTrackMap), s4))))"

definition update_ix :: "AB3DMOTTracker \<Rightarrow> Detection list \<Rightarrow> (error + Track list) \<times> AB3DMOTTracker" where
  "update_ix this detections =
     (let s1 = predictTracks_ix this;
          assignments = associateDetections s1 detections in
      case updateTracks_ix s1 detections assignments of
        (Some e, s2) \<Rightarrow> (Inl e, s2)
      | (None, s2) \<Rightarrow>
          (case createNewTracks_ix s2 detections assignments of
             (newTrackMap, s3) \<Rightarrow>
               (let s4 = deleteOldTracks s3 in
                (Inr (filter (\<lambda>track. real_of_int (hits track) \<ge> minHits s4) (tracks s4)), s4))))"

definition step :: "AB3DMOTTracker \<Rightarrow> Detection list \<Rightarrow> (error + TrackedDetection list) \<times> AB3DMOTTracker" where
  "step this detections =
     (let s1 = predictTracks this;
          assignments = associateDetections s1 detections in
      case updateTracks s1 detections assignments of
        (Some e, s2) \<Rightarrow> (Inl e, s2)
      | (None, s2) \<Rightarrow>
          (let s3 = deleteOldTracks s2 in
           case createNewTracks s3 detections assignments of
             (newTrackMap, s4) \<Rightarrow>
               (Inr (assembleOutput s4 detections assignments newTrackMap), s4)))"

fun runLoop :: "(AB3DMOTTracker \<Rightarrow> Detection list \<Rightarrow> (error + TrackedDetection list) \<times> AB3DMOTTracker) \<Rightarrow> AB3DMOTTracker \<Rightarrow> Detection list list \<Rightarrow> TrackedDetection list list \<Rightarrow> (error + TrackedDetection list list) \<times> AB3DMOTTracker" where
  "runLoop stp this [] outputs = (Inr outputs, this)"
| "runLoop stp this (detections # rest) outputs =
     (case stp this detections of
        (Inl e, s') \<Rightarrow> (Inl e, s')
      | (Inr frameOutput, s') \<Rightarrow> runLoop stp s' rest (outputs @ [frameOutput]))"

definition run_ix :: "AB3DMOTTracker \<Rightarrow> (error + TrackedDetection list list) \<times> AB3DMOTTracker" where
  "run_ix this = runLoop step_ix this (frames this) []"

definition run :: "AB3DMOTTracker \<Rightarrow> (error + TrackedDetection list list) \<times> AB3DMOTTracker" where
  "run this = runLoop step this (frames this) []"

section \<open>Example inputs\<close>

definition det :: "BoundingBox3D \<Rightarrow> Detection" where
  "det b = \<lparr>det_id = None, det_bbox = b, confidence = 9 / 10, classId = None\<rparr>"

definition flatBox :: BoundingBox3D where
  "flatBox = mkBox 0 0 0 0 2 2"

definition boxA :: BoundingBox3D where
  "boxA = mkBox 10 0 0 2 2 2"

definition boxB :: BoundingBox3D where
  "boxB = mkBox 0 0 0 2 2 2"

definition boxB' :: BoundingBox3D where
  "boxB' = mkBox (1 / 5) 0 (1 / 10) 2 2 2"

definition badOptions :: TrackerOptions where
  "badOptions =
     \<lparr>opt_maxAge = Some (- 1), opt_minHits = Some 0, opt_iouThreshold = Some 2,
      opt_data = None\<rparr>"

definition twoTracks :: AB3DMOTTracker where
  "twoTracks =
     \<lparr>tracks = [newTrack_ix 1 (det boxA), newTrack_ix 2 (det boxB)], nextTrackId = 3,
      maxAge = 3, minHits = 3, iouThreshold = 3 / 10, frames = []\<rparr>"

section \<open>Invariants of the loops\<close>

definition bestOk :: "BoundingBox3D \<Rightarrow> Track list \<Rightarrow> int set \<Rightarrow> int \<times> real \<Rightarrow> bool" where
  "bestOk b ts usedTracks best =
     (fst best = - 1 \<or>
      (0 \<le> fst best \<and> nat (fst best) < length ts \<and> fst best \<notin> usedTracks \<and>
       snd best = calculate3DIoU b (trk_bbox (ts ! nat (fst best)))))"

definition assocInv :: "AB3DMOTTracker \<Rightarrow> Detection list \<Rightarrow> int list \<times> int set \<Rightarrow> bool" where
  "assocInv this ds acc =
     (length (fst acc) = length ds \<and>
      (\<forall>i<length ds. fst acc ! i \<noteq> - 1 \<longrightarrow>
         fst acc ! i \<in> snd acc \<and> 0 \<le> fst acc ! i \<and> nat (fst acc ! i) < length (tracks this) \<and>
         iouThreshold this \<le>
           calculate3DIoU (det_bbox (ds ! i)) (trk_bbox (tracks this ! nat (fst acc ! i)))) \<and>
      (\<forall>i<length ds. \<forall>j<length ds. i \<noteq> j \<and> fst acc ! i \<noteq> - 1 \<longrightarrow> fst acc ! i \<noteq> fst acc ! j))"

section \<open>Sequences of frames\<close>

definition track_ids :: "AB3DMOTTracker \<Rightarrow> int set" where
  "track_ids this = trk_id ` set (tracks this)"

definition output_ids :: "error + TrackedDetection list \<Rightarrow> int set" where
  "output_ids r = (case r of Inl e \<Rightarrow> {} | Inr out \<Rightarrow> trackId ` set out)"

fun stepsFrom :: "(AB3DMOTTracker \<Rightarrow> Detection list \<Rightarrow> (error + TrackedDetection list) \<times> AB3DMOTTracker) \<Rightarrow> AB3DMOTTracker \<Rightarrow> Detection list list \<Rightarrow> AB3DMOTTracker" where
  "stepsFrom stp this [] = this"
| "stepsFrom stp this (detections # rest) = stepsFrom stp (snd (stp this detections)) rest"

fun seenIds :: "(AB3DMOTTracker \<Rightarrow> Detection list \<Rightarrow> (error + TrackedDetection list) \<times> AB3DMOTTracker) \<Rightarrow> AB3DMOTTracker \<Rightarrow> Detection list list \<Rightarrow> int set" where
  "seenIds stp this [] = track_ids this"
| "seenIds stp this (detections # rest) =
     track_ids this \<union> output_ids (fst (stp this detections)) \<union>
     seenIds stp (snd (stp this detections)) rest"

definition idsBelow :: "AB3DMOTTracker \<Rightarrow> bool" where
  "idsBelow this =
     ((\<forall>i\<in>set (map trk_id (tracks this)). i < nextTrackId this) \<and>
      distinct (map trk_id (tracks this)))"

definition frameSpec :: "(AB3DMOTTracker \<Rightarrow> Detection list \<Rightarrow> (error + TrackedDetection list) \<times> AB3DMOTTracker) \<Rightarrow> bool" where
  "frameSpec stp =
     (\<forall>this ds.
        nextTrackId this \<le> nextTrackId (snd (stp this ds)) \<and>
        (\<forall>t\<in>set (tracks (snd (stp this ds))).
           trk_id t \<in> track_ids this \<or>
           (nextTrackId this \<le> trk_id t \<and> trk_id t < nextTrackId (snd (stp this ds)))) \<and>
        (\<forall>i\<in>output_ids (fst (stp this ds)).
           i \<in> track_ids this \<or>
           (nextTrackId this \<le> i \<and> i < nextTrackId (snd (stp this ds)))) \<and>
        (idsBelow this \<longrightarrow> idsBelow (snd (stp this ds))))"

definition matchedIds_ix :: "AB3DMOTTracker \<Rightarrow> Detection list \<Rightarrow> int set" where
  "matchedIds_ix this detections =
     (let s1 = predictTracks_ix this;
          assignments = associateDetections s1 detections
      in set (map (\<lambda>a. trk_id (tracks s1 ! nat a)) (filter (\<lambda>a. a \<noteq> - 1) assignments)))"

fun neverMatched :: "int \<Rightarrow> AB3DMOTTracker \<Rightarrow> Detection list list \<Rightarrow> bool" where
  "neverMatched i this [] = True"
| "neverMatched i this (detections # rest) =
     (i \<notin> matchedIds_ix this detections \<and> neverMatched i (snd (step_ix this detections)) rest)"

definition boxC :: BoundingBox3D where
  "boxC = mkBox 20 0 0 2 2 2"

definition shortLived :: TrackerOptions where
  "shortLived =
     \<lparr>opt_maxAge = Some 1, opt_minHits = None, opt_iouThreshold = None, opt_data = None\<rparr>"

definition oneTrack :: AB3DMOTTracker where
  "oneTrack =
     \<lparr>tracks = [newTrack_ix 1 (det boxA)], nextTrackId = 2, maxAge = 1, minHits = 3,
      iouThreshold = 3 / 10, frames = []\<rparr>"

section \<open>Inputs for the frames that fail\<close>

definition noGrace :: TrackerOptions where
  "noGrace = \<lparr>opt_maxAge = Some 0, opt_minHits = None, opt_iouThreshold = None, opt_data = None\<rparr>"

definition negativeAge :: TrackerOptions where
  "negativeAge =
     \<lparr>opt_maxAge = Some (- 1), opt_minHits = None, opt_iouThreshold = None, opt_data = None\<rparr>"

definition predictedCovariance :: "real list list" where
  "predictedCovariance =
     [[81 / 40, 0, 0, 21 / 20, 0, 0],
      [0, 81 / 40, 0, 0, 21 / 20, 0],
      [0, 0, 81 / 40, 0, 0, 21 / 20],
      [21 / 20, 0, 0, 11 / 10, 0, 0],
      [0, 21 / 20, 0, 0, 11 / 10, 0],
      [0, 0, 21 / 20, 0, 0, 11 / 10]]"

definition updatedCovariance :: "real list list" where
  "updatedCovariance =
     [[81 / 850, 0, 0, 21 / 425, 0, 0],
      [0, 81 / 850, 0, 0, 21 / 425, 0],
      [0, 0, 81 / 850, 0, 0, 21 / 425],
      [21 / 425, 0, 0, 247 / 425, 0, 0],
      [0, 21 / 425, 0, 0, 247 / 425, 0],
      [0, 0, 21 / 425, 0, 0, 247 / 425]]"

section \<open>Invariant of the estimators of a run\<close>

text \<open>
  Every estimator the tracker builds has both noise scalars 0.1 and starts from the
  identity covariance. \<open>trackerFilter\<close> is what \<open>predict\<close> and \<open>update\<close> keep from then
  on: the covariance has three scalar blocks \<open>a\<close>, \<open>b\<close>, \<open>c\<close> (position, cross term,
  velocity), all non-negative, with \<open>b\<^sup>2 \<le> a c\<close>.
\<close>

definition blockCovariance :: "real \<Rightarrow> real \<Rightarrow> real \<Rightarrow> real list list" where
  "blockCovariance a b c =
     [[a, 0, 0, b, 0, 0],
      [0, a, 0, 0, b, 0],
      [0, 0, a, 0, 0, b],
      [b, 0, 0, c, 0, 0],
      [0, b, 0, 0, c, 0],
      [0, 0, b, 0, 0, c]]"

definition trackerFilter :: "KalmanFilter3D \<Rightarrow> bool" where
  "trackerFilter kf =
     (length (state kf) = 6 \<and> processNoise kf = 1 / 10 \<and> measurementNoise kf = 1 / 10 \<and>
      (\<exists>a b c. 0 \<le> a \<and> 0 \<le> b \<and> 0 \<le> c \<and> b * b \<le> a * c \<and>
         covariance kf = blockCovariance a b c))"

definition trackFilterOk :: "Track \<Rightarrow> bool" where
  "trackFilterOk t = (case kalmanFilter t of None \<Rightarrow> True | Some kf \<Rightarrow> trackerFilter kf)"

definition filtersOk :: "AB3DMOTTracker \<Rightarrow> bool" where
  "filtersOk this = list_all trackFilterOk (tracks this)"

section \<open>Properties of the overlap score\<close>

lemma roundHalfEven_of_int [simp]: "roundHalfEven (of_int n) = n"
  by (simp add: roundHalfEven_def)

lemma roundHalfEven_nonneg: "0 \<le> y \<Longrightarrow> 0 \<le> roundHalfEven y"
  by (auto simp: roundHalfEven_def Let_def)

lemma double_round_zero [simp]: "double_round 0 = 0"
  by (simp add: double_round_def)

lemma double_round_nonneg: "0 \<le> v \<Longrightarrow> 0 \<le> double_round v"
  by (simp add: double_round_def Let_def roundHalfEven_nonneg)

lemma double_round_unit:
  assumes u: "u = 2 powr of_int k"
    and lo: "2 ^ 52 * u \<le> \<bar>v\<bar>" and hi: "\<bar>v\<bar> < 2 ^ 53 * u"
  shows "double_round v = u * of_int (roundHalfEven (v / u))"
proof -
  have upos: "0 < u" unfolding u by simp
  have p52: "(2::real) ^ 52 = 2 powr of_int 52" and p53: "(2::real) ^ 53 = 2 powr of_int 53"
    by (simp_all add: powr_realpow [symmetric])
  have "2 powr of_int (k + 52) = (2::real) powr of_int 52 * 2 powr of_int k"
    by (simp only: powr_add [symmetric] of_int_add add.commute)
  with lo have lo': "2 powr of_int (k + 52) \<le> \<bar>v\<bar>"
    by (simp only: u p52)
  have "2 powr (of_int (k + 52) + 1) = (2::real) powr of_int 53 * 2 powr of_int k"
  proof -
    have "of_int (k + 52) + 1 = (of_int 53 + of_int k :: real)" by simp
    then show ?thesis by (simp only: powr_add)
  qed
  with hi have hi': "\<bar>v\<bar> < 2 powr (of_int (k + 52) + 1)"
    by (simp only: u p53)
  from lo' have vpos: "0 < \<bar>v\<bar>"
    by (smt (verit) powr_gt_zero)
  have "\<lfloor>log 2 \<bar>v\<bar>\<rfloor> = k + 52"
    using lo' hi' vpos by (simp add: floor_log_eq_powr_iff)
  moreover have "v \<noteq> 0" using vpos by simp
  ultimately show ?thesis
    by (simp add: double_round_def Let_def u)
qed

lemma double_round_exact:
  assumes v: "v = of_int m * u" and u: "u = 2 powr of_int k" and m: "\<bar>m\<bar> < 2 ^ 53"
  shows "double_round v = v"
proof (cases "m = 0")
  case True
  with v show ?thesis by simp
next
  case False
  define j where "j = \<lfloor>log 2 \<bar>of_int m :: real\<bar>\<rfloor>"
  have mpos: "0 < \<bar>of_int m :: real\<bar>" using False by simp
  have jb: "2 powr of_int j \<le> \<bar>of_int m :: real\<bar>" "\<bar>of_int m :: real\<bar> < 2 powr (of_int j + 1)"
    using floor_log_eq_powr_iff [of "\<bar>of_int m :: real\<bar>" 2 j] mpos by (simp_all add: j_def)
  have m53: "\<bar>of_int m :: real\<bar> < 2 ^ 53" using m
    by (metis of_int_abs of_int_less_iff of_int_numeral of_int_power)
  have e53: "(2::real) ^ 53 = 2 powr of_int 53"
    by (simp add: powr_realpow [symmetric])
  have "2 powr of_int j < (2::real) ^ 53"
    using jb(1) m53 by (rule le_less_trans)
  then have "2 powr of_int j < (2::real) powr of_int 53"
    by (simp only: e53)
  then have "(of_int j :: real) < of_int 53"
    by (rule powr_less_cancel) simp
  then have j52: "j \<le> 52" by simp
  define n where "n = nat (52 - j)"
  have n: "of_int (52 - j) = (real n)" using j52 by (simp add: n_def)
  define u' :: real where "u' = 2 powr of_int (j + k - 52)"
  have u'pos: "0 < u'" by (simp add: u'_def)
  have upos: "0 < u" by (simp add: u)
  have uu': "u = u' * 2 ^ n"
  proof -
    have "u' * 2 ^ n = 2 powr of_int (j + k - 52) * 2 powr (real n)"
      by (simp add: u'_def powr_realpow)
    also have "\<dots> = 2 powr (of_int (j + k - 52) + of_int (52 - j))"
      by (simp only: powr_add n)
    also have "\<dots> = u" by (simp add: u)
    finally show ?thesis by simp
  qed
  have absv: "\<bar>v\<bar> = \<bar>of_int m\<bar> * u" using upos by (simp add: v abs_mult)
  have p52: "(2::real) ^ 52 * u' = 2 powr of_int j * u"
  proof -
    have e52: "(2::real) ^ 52 = 2 powr of_int 52"
      by (simp add: powr_realpow [symmetric])
    have "(2::real) ^ 52 * u' = 2 powr of_int 52 * 2 powr of_int (j + k - 52)"
      by (simp only: u'_def e52)
    also have "\<dots> = 2 powr (of_int 52 + of_int (j + k - 52))"
      by (simp only: powr_add)
    also have "\<dots> = 2 powr (of_int j + of_int k)"
      by simp
    also have "\<dots> = 2 powr of_int j * u" by (simp add: u powr_add)
    finally show ?thesis .
  qed
  have p53: "(2::real) ^ 53 * u' = 2 powr (of_int j + 1) * u"
  proof -
    have "(2::real) ^ 53 * u' = 2 powr of_int 53 * 2 powr of_int (j + k - 52)"
      by (simp only: u'_def e53)
    also have "\<dots> = 2 powr (of_int 53 + of_int (j + k - 52))"
      by (simp only: powr_add)
    also have "\<dots> = 2 powr (of_int j + 1 + of_int k)"
      by (simp add: add.commute add.left_commute)
    also have "\<dots> = 2 powr (of_int j + 1) * u" by (simp add: u powr_add)
    finally show ?thesis .
  qed
  have lo: "2 ^ 52 * u' \<le> \<bar>v\<bar>"
    unfolding p52 absv using jb(1) upos by simp
  have hi: "\<bar>v\<bar> < 2 ^ 53 * u'"
    unfolding p53 absv using jb(2) upos by simp
  have quot: "v / u' = of_int (m * 2 ^ n)"
    using u'pos by (simp add: v uu')
  from double_round_unit [OF u'_def lo hi]
  have "double_round v = u' * of_int (roundHalfEven (v / u'))" .
  also have "\<dots> = u' * of_int (m * 2 ^ n)" by (simp only: quot roundHalfEven_of_int)
  also have "\<dots> = v" by (simp add: v uu')
  finally show ?thesis .
qed

lemma double_round_int:
  assumes "\<bar>m\<bar> < 2 ^ 53"
  shows "double_round (of_int m) = of_int m"
  using assms by (intro double_round_exact [of _ m 1 0]) simp_all

lemma double_round_half:
  assumes "\<bar>m\<bar> < 2 ^ 53"
  shows "double_round (of_int m / 2) = of_int m / 2"
  using assms by (intro double_round_exact [of _ m "1 / 2" "- 1"]) simp_all

lemma calculateIntersection3D_rnd_commute:
  "calculateIntersection3D_rnd rnd a b = calculateIntersection3D_rnd rnd b a"
  by (simp add: calculateIntersection3D_rnd_def Let_def min.commute max.commute)

lemma calculate3DIoU_rnd_commute:
  "calculate3DIoU_rnd rnd a b = calculate3DIoU_rnd rnd b a"
  by (simp add: calculate3DIoU_rnd_def Let_def calculateIntersection3D_rnd_commute add.commute)

lemma calculateIntersection3D_rnd_nonneg:
  assumes "\<And>v. 0 \<le> v \<Longrightarrow> 0 \<le> rnd v"
  shows "0 \<le> calculateIntersection3D_rnd rnd a b"
  unfolding calculateIntersection3D_rnd_def Let_def
  by (intro assms mult_nonneg_nonneg) simp_all

lemma calculate3DIoU_rnd_nonneg:
  assumes "\<And>v. 0 \<le> v \<Longrightarrow> 0 \<le> rnd v"
  shows "0 \<le> calculate3DIoU_rnd rnd a b"
proof -
  have "0 \<le> calculateIntersection3D_rnd rnd a b"
    using assms by (rule calculateIntersection3D_rnd_nonneg)
  then show ?thesis
    unfolding calculate3DIoU_rnd_def Let_def
    by (auto intro!: assms divide_nonneg_pos)
qed

lemma calculate3DIoU_rnd_zero_extent:
  assumes z: "rnd 0 = 0" and a: "zero_extent a"
  shows "calculate3DIoU_rnd rnd a a = 0"
proof -
  have i: "calculateIntersection3D_rnd rnd a a = 0"
    using a unfolding zero_extent_def calculateIntersection3D_rnd_def Let_def
    by (auto simp: z)
  have v: "rnd (rnd (box_width a * box_height a) * box_length a) = 0"
    using a unfolding zero_extent_def by (auto simp: z)
  show ?thesis
    unfolding calculate3DIoU_rnd_def Let_def i v by (simp add: z)
qed

lemma calculate3DIoU_rnd_self_exact:
  assumes p: "pos_extents a" and e: "self_exact rnd a"
  shows "calculate3DIoU_rnd rnd a a = 1"
proof -
  let ?w = "box_width a" and ?h = "box_height a" and ?l = "box_length a"
  let ?v = "?w * ?h * ?l"
  from p have w: "0 < ?w" and h: "0 < ?h" and l: "0 < ?l" by (simp_all add: pos_extents_def)
  from e have r: "rnd (?w / 2) = ?w / 2" "rnd (?h / 2) = ?h / 2" "rnd (?l / 2) = ?l / 2"
    "rnd (box_x a + ?w / 2) = box_x a + ?w / 2" "rnd (box_x a - ?w / 2) = box_x a - ?w / 2"
    "rnd (box_y a + ?h / 2) = box_y a + ?h / 2" "rnd (box_y a - ?h / 2) = box_y a - ?h / 2"
    "rnd (box_z a + ?l / 2) = box_z a + ?l / 2" "rnd (box_z a - ?l / 2) = box_z a - ?l / 2"
    "rnd ?w = ?w" "rnd ?h = ?h" "rnd ?l = ?l" "rnd (?w * ?h) = ?w * ?h" "rnd ?v = ?v"
    "rnd (?v + ?v) = ?v + ?v" "rnd 1 = 1"
    by (simp_all add: self_exact_def)
  have i: "calculateIntersection3D_rnd rnd a a = ?v"
    unfolding calculateIntersection3D_rnd_def Let_def
    using w h l by (simp add: r max_def)
  have vpos: "0 < ?v" using w h l by simp
  have vol: "rnd (rnd (?w * ?h) * ?l) = ?v" by (simp only: r)
  have "rnd (rnd (?v + ?v) - ?v) = rnd (?v + ?v - ?v)" by (simp only: r)
  also have "?v + ?v - ?v = ?v" by simp
  finally have un: "rnd (rnd (?v + ?v) - ?v) = ?v" by (simp only: r)
  have q: "?v / ?v = 1" using w h l by simp
  show ?thesis
    unfolding calculate3DIoU_rnd_def Let_def i vol un q using vpos r(16) by simp
qed


lemma calculate3DIoU_rnd_exact:
  "calculate3DIoU_rnd (\<lambda>v. v) a b = calculate3DIoU a b"
  by (simp add: calculate3DIoU_rnd_def calculateIntersection3D_rnd_def calculate3DIoU_def
      calculateIntersection3D_def Let_def)

lemma double_round_small_ints:
  "double_round 1 = 1" "double_round (- 1) = - 1" "double_round 2 = 2" "double_round 3 = 3"
  "double_round 4 = 4" "double_round 6 = 6" "double_round 8 = 8" "double_round 12 = 12"
  "double_round 16 = 16" "double_round 24 = 24"
  using double_round_int [of 1] double_round_int [of "- 1"] double_round_int [of 2]
    double_round_int [of 3] double_round_int [of 4] double_round_int [of 6]
    double_round_int [of 8] double_round_int [of 12] double_round_int [of 16]
    double_round_int [of 24]
  by simp_all

lemma double_round_three_halves: "double_round (3 / 2) = 3 / 2"
  using double_round_half [of 3] by simp

lemma double_round_far_centre: "double_round (2 ^ 53 + 2) = 2 ^ 53 + 2"
  using double_round_exact [of "2 ^ 53 + 2" "2 ^ 52 + 1" 2 1] by simp

lemma double_round_far_upper: "double_round (2 ^ 53 + 2 + 3 / 2) = 2 ^ 53 + 4"
  using double_round_unit [of 2 1 "2 ^ 53 + 2 + 3 / 2"]
  by (simp add: roundHalfEven_def Let_def)

lemma double_round_far_lower: "double_round (2 ^ 53 + 2 - 3 / 2) = 2 ^ 53"
  using double_round_unit [of 2 1 "2 ^ 53 + 2 - 3 / 2"]
  by (simp add: roundHalfEven_def Let_def)

lemma zero_extent_flatBox: "zero_extent flatBox"
  by (simp add: zero_extent_def flatBox_def mkBox_def)

lemma pos_extents_farBox: "pos_extents farBox"
  by (simp add: pos_extents_def farBox_def mkBox_def)

lemma double_round_far_faces:
  "double_round (18014398509481991 / 2) = 9007199254740996"
  "double_round (18014398509481985 / 2) = 9007199254740992"
  using double_round_far_upper double_round_far_lower by simp_all

lemma overlap_farBox: "calculate3DIoU_double farBox farBox = 2"
  by (simp add: calculate3DIoU_double_def calculate3DIoU_rnd_def calculateIntersection3D_rnd_def
      farBox_def mkBox_def Let_def double_round_small_ints double_round_three_halves
      double_round_far_faces)


lemma self_exact_boxB: "self_exact double_round boxB"
  by (simp add: self_exact_def boxB_def mkBox_def double_round_small_ints)







section \<open>Properties of the state estimator\<close>

lemmas matrix_defs = matrixMultiply_def matrixVectorMultiply_def matrixTranspose_def
  matrixAdd_def matrixSubtract_def createIdentityMatrix_def columns_def

lemma length6_obtain:
  assumes "length xs = 6"
  obtains a b c d e f where "xs = [a, b, c, d, e, f]"
proof -
  from assms obtain a b c d e f where "xs = [a, b, c, d, e, f]"
    by (auto simp: eval_nat_numeral length_Suc_conv)
  then show ?thesis by (rule that)
qed

lemma transition_zero_covariance:
  "matrixAdd (matrixMultiply (matrixMultiply (transitionMatrix 0)
      [[a0, a1, a2, a3, a4, a5], [b0, b1, b2, b3, b4, b5], [c0, c1, c2, c3, c4, c5],
       [d0, d1, d2, d3, d4, d5], [e0, e1, e2, e3, e4, e5], [f0, f1, f2, f3, f4, f5]])
      (matrixTranspose (transitionMatrix 0))) (createProcessNoiseMatrix kf 0)
   = [[a0, a1, a2, a3, a4, a5], [b0, b1, b2, b3, b4, b5], [c0, c1, c2, c3, c4, c5],
      [d0, d1, d2, d3, d4, d5], [e0, e1, e2, e3, e4, e5], [f0, f1, f2, f3, f4, f5]]"
  by (simp add: matrix_defs transitionMatrix_def createProcessNoiseMatrix_def)

lemma transition_zero_state:
  "matrixVectorMultiply (transitionMatrix 0) [a, b, c, d, e, f] = [a, b, c, d, e, f]"
  by (simp add: matrix_defs transitionMatrix_def)

lemma process_noise_zero:
  "createProcessNoiseMatrix kf 0 = replicate 6 (replicate 6 0)"
  by (simp add: createProcessNoiseMatrix_def eval_nat_numeral)

lemma transition_zero_identity: "transitionMatrix 0 = createIdentityMatrix 6"
  by (simp add: transitionMatrix_def createIdentityMatrix_def eval_nat_numeral)

lemma kalman_shape_new: "kalman_shape (KalmanFilter3D_new b q r)"
  by (simp add: kalman_shape_def KalmanFilter3D_new_def)

text \<open>
  Claim C9. The class keeps a state vector of length 6 and a 6 by 6 covariance
  (\<open>kalman_shape\<close>); for every such filter, \<open>predict\<close> with \<open>dt = 0\<close> returns the
  filter unchanged: the state vector, the covariance matrix and the two noise scalars.
  At \<open>dt = 0\<close> the transition matrix is the identity and the process noise matrix is
  zero.
\<close>

theorem predict_zero_unchanged:
  assumes "kalman_shape kf"
  shows "predict 0 kf = kf \<and> transitionMatrix 0 = createIdentityMatrix 6 \<and>
         createProcessNoiseMatrix kf 0 = replicate 6 (replicate 6 0)"
proof -
  from assms have ls: "length (state kf) = 6" and lc: "length (covariance kf) = 6"
    and rows: "\<forall>r\<in>set (covariance kf). length r = 6"
    by (simp_all add: kalman_shape_def list_all_iff)
  from ls obtain a b c d e f where st: "state kf = [a, b, c, d, e, f]"
    by (rule length6_obtain)
  from lc obtain r0 r1 r2 r3 r4 r5 where cv: "covariance kf = [r0, r1, r2, r3, r4, r5]"
    by (rule length6_obtain)
  from rows cv have l0: "length r0 = 6" and l1: "length r1 = 6" and l2: "length r2 = 6"
    and l3: "length r3 = 6" and l4: "length r4 = 6" and l5: "length r5 = 6"
    by simp_all
  from l0 obtain a0 a1 a2 a3 a4 a5 where r0: "r0 = [a0, a1, a2, a3, a4, a5]"
    by (rule length6_obtain)
  from l1 obtain b0 b1 b2 b3 b4 b5 where r1: "r1 = [b0, b1, b2, b3, b4, b5]"
    by (rule length6_obtain)
  from l2 obtain c0 c1 c2 c3 c4 c5 where r2: "r2 = [c0, c1, c2, c3, c4, c5]"
    by (rule length6_obtain)
  from l3 obtain d0 d1 d2 d3 d4 d5 where r3: "r3 = [d0, d1, d2, d3, d4, d5]"
    by (rule length6_obtain)
  from l4 obtain e0 e1 e2 e3 e4 e5 where r4: "r4 = [e0, e1, e2, e3, e4, e5]"
    by (rule length6_obtain)
  from l5 obtain f0 f1 f2 f3 f4 f5 where r5: "r5 = [f0, f1, f2, f3, f4, f5]"
    by (rule length6_obtain)
  have "covariance (predict 0 kf) = covariance kf"
    unfolding predict_def Let_def
    by (simp add: cv r0 r1 r2 r3 r4 r5 transition_zero_covariance)
  moreover have "state (predict 0 kf) = state kf"
    unfolding predict_def Let_def by (simp add: st transition_zero_state)
  moreover have "processNoise (predict 0 kf) = processNoise kf"
    "measurementNoise (predict 0 kf) = measurementNoise kf"
    by (simp_all add: predict_def Let_def)
  ultimately have "predict 0 kf = kf" by simp
  then show ?thesis
    by (simp add: transition_zero_identity process_noise_zero)
qed

theorem predict_zero_unchanged_witness:
  "kalman_shape (KalmanFilter3D_new boxB' (1 / 10) (1 / 10)) \<and>
   predict 0 (KalmanFilter3D_new boxB' (1 / 10) (1 / 10)) =
     KalmanFilter3D_new boxB' (1 / 10) (1 / 10)"
proof -
  have h: "kalman_shape (KalmanFilter3D_new boxB' (1 / 10) (1 / 10))"
    by (rule kalman_shape_new)
  from predict_zero_unchanged [OF h] h show ?thesis by simp
qed

section \<open>Properties of the constructor\<close>

text \<open>
  Claim C4, as the code has it. The constructor checks nothing: for every options object
  it returns a tracker, and each value that is supplied is stored as given, neither
  rejected nor clamped; a value that is absent takes its default (3, 3 and 0.3).
\<close>

theorem constructor_accepts_everything:
  "AB3DMOTTracker_new (Some opts) =
     Inr \<lparr>tracks = [], nextTrackId = 1,
          maxAge = (case opt_maxAge opts of None \<Rightarrow> 3 | Some v \<Rightarrow> v),
          minHits = (case opt_minHits opts of None \<Rightarrow> 3 | Some v \<Rightarrow> v),
          iouThreshold = (case opt_iouThreshold opts of None \<Rightarrow> 3 / 10 | Some v \<Rightarrow> v),
          frames = (case opt_data opts of None \<Rightarrow> [] | Some v \<Rightarrow> v)\<rparr>"
  by (simp add: AB3DMOTTracker_new_def AB3DMOTTracker_init_def fieldInitialisers_def
      nullish_def Let_def split: option.split)

text \<open>
  Claim C4, as stated, fails: with \<open>maxAge = -1\<close>, \<open>minHits = 0\<close> and
  \<open>iouThreshold = 2\<close> the constructor returns a tracker that holds these three values.
\<close>

theorem constructor_invalid_counterexample:
  "AB3DMOTTracker_new (Some badOptions) =
     Inr \<lparr>tracks = [], nextTrackId = 1, maxAge = - 1, minHits = 0, iouThreshold = 2,
          frames = []\<rparr>"
  by (simp add: AB3DMOTTracker_new_def AB3DMOTTracker_init_def fieldInitialisers_def
      nullish_def badOptions_def Let_def)

section \<open>Properties of the association\<close>

lemma bestTrack_ok:
  "bestOk b ts used best \<Longrightarrow> \<forall>t\<in>set idxs. t < length ts \<Longrightarrow>
   bestOk b ts used (bestTrack b ts used idxs best)"
proof (induction b ts used idxs best rule: bestTrack.induct)
  case (1 b ts usedTracks best)
  then show ?case by simp
next
  case (2 b ts usedTracks t rest bestTrackIndex bestIoU)
  show ?case
  proof (cases "int t \<in> usedTracks")
    case True
    with 2 show ?thesis by simp
  next
    case False
    note unused = this
    show ?thesis
    proof (cases "calculate3DIoU b (trk_bbox (ts ! t)) > bestIoU")
      case True
      have "bestOk b ts usedTracks (int t, calculate3DIoU b (trk_bbox (ts ! t)))"
        using unused 2(5) by (simp add: bestOk_def)
      with 2(2) [OF unused refl True] 2(5) unused True show ?thesis by (simp add: Let_def)
    next
      case False
      with 2(3) [OF unused refl False] 2(4,5) unused show ?thesis by (simp add: Let_def)
    qed
  qed
qed

lemma assocInv_step:
  assumes inv: "assocInv this ds (asg, used)"
    and i: "i < length ds" and free: "asg ! i = - 1"
    and ok: "bestOk (det_bbox (ds ! i)) (tracks this) used (bi, bv)"
    and sel: "bi \<noteq> - 1" "iouThreshold this \<le> bv"
  shows "assocInv this ds (asg[i := bi], insert bi used)"
proof -
  from inv have len: "length asg = length ds"
    and valid: "\<And>k. k < length ds \<Longrightarrow> asg ! k \<noteq> - 1 \<Longrightarrow>
         asg ! k \<in> used \<and> 0 \<le> asg ! k \<and> nat (asg ! k) < length (tracks this) \<and>
         iouThreshold this \<le>
           calculate3DIoU (det_bbox (ds ! k)) (trk_bbox (tracks this ! nat (asg ! k)))"
    and inj: "\<And>k j. k < length ds \<Longrightarrow> j < length ds \<Longrightarrow> k \<noteq> j \<Longrightarrow> asg ! k \<noteq> - 1 \<Longrightarrow>
         asg ! k \<noteq> asg ! j"
    by (simp_all add: assocInv_def)
  from ok sel have bi: "0 \<le> bi" "nat bi < length (tracks this)" "bi \<notin> used"
    "bv = calculate3DIoU (det_bbox (ds ! i)) (trk_bbox (tracks this ! nat bi))"
    by (simp_all add: bestOk_def)
  have used_ne: "\<And>k. k < length ds \<Longrightarrow> asg ! k \<noteq> - 1 \<Longrightarrow> asg ! k \<noteq> bi"
    using valid bi(3) by blast
  show ?thesis
    unfolding assocInv_def fst_conv snd_conv
  proof (intro conjI allI impI)
    show "length (asg[i := bi]) = length ds" using len by simp
  next
    fix k assume k: "k < length ds" and ne: "asg[i := bi] ! k \<noteq> - 1"
    show "asg[i := bi] ! k \<in> insert bi used"
      using k ne valid [of k] i len by (cases "k = i") simp_all
    show "0 \<le> asg[i := bi] ! k"
      using k ne valid [of k] i len bi by (cases "k = i") simp_all
    show "nat (asg[i := bi] ! k) < length (tracks this)"
      using k ne valid [of k] i len bi by (cases "k = i") simp_all
    show "iouThreshold this \<le> calculate3DIoU (det_bbox (ds ! k))
             (trk_bbox (tracks this ! nat (asg[i := bi] ! k)))"
      using k ne valid [of k] i len bi sel by (cases "k = i") simp_all
  next
    fix k j assume k: "k < length ds" and j: "j < length ds"
      and h: "k \<noteq> j \<and> asg[i := bi] ! k \<noteq> - 1"
    show "asg[i := bi] ! k \<noteq> asg[i := bi] ! j"
    proof (cases "k = i")
      case True
      with h have ji: "j \<noteq> i" by simp
      show ?thesis
      proof (cases "asg ! j = - 1")
        case True
        with \<open>k = i\<close> ji i len sel show ?thesis by simp
      next
        case False
        from used_ne [OF j False] \<open>k = i\<close> ji i len show ?thesis by simp
      qed
    next
      case False
      with h k len have kne: "asg ! k \<noteq> - 1" by simp
      show ?thesis
      proof (cases "j = i")
        case True
        with used_ne [OF k kne] False i len show ?thesis by simp
      next
        case False
        with inj [OF k j _ kne] h \<open>k \<noteq> i\<close> show ?thesis by simp
      qed
    qed
  qed
qed

lemma bestOk_init: "bestOk b ts used (- 1, - 1)"
  by (simp add: bestOk_def)

lemma associateLoop_inv:
  "assocInv this ds acc \<Longrightarrow> distinct idxs \<Longrightarrow>
   \<forall>i\<in>set idxs. i < length ds \<and> fst acc ! i = - 1 \<Longrightarrow>
   assocInv this ds (associateLoop this ds idxs acc)"
proof (induction this ds idxs acc rule: associateLoop.induct)
  case (1 this ds acc)
  then show ?case by simp
next
  case (2 this ds i rest assignments usedTracks)
  obtain bi bv where best:
    "bestTrack (det_bbox (ds ! i)) (tracks this) usedTracks [0..<length (tracks this)] (- 1, - 1) = (bi, bv)"
    by (cases "bestTrack (det_bbox (ds ! i)) (tracks this) usedTracks [0..<length (tracks this)] (- 1, - 1)")
  have ok: "bestOk (det_bbox (ds ! i)) (tracks this) usedTracks (bi, bv)"
    using bestTrack_ok [OF bestOk_init, of "[0..<length (tracks this)]" "tracks this" "det_bbox (ds ! i)" usedTracks]
    by (simp add: best)
  from "2.prems" have i: "i < length ds" and free: "assignments ! i = - 1"
    and rest: "distinct rest" "i \<notin> set rest"
    and restfree: "\<forall>k\<in>set rest. k < length ds \<and> assignments ! k = - 1"
    by simp_all
  show ?case
  proof (cases "bi \<noteq> - 1 \<and> iouThreshold this \<le> bv")
    case True
    have inv': "assocInv this ds (assignments[i := bi], insert bi usedTracks)"
      using True by (intro assocInv_step [OF "2.prems"(1) i free ok]) blast+
    have "\<forall>k\<in>set rest. k < length ds \<and> fst (assignments[i := bi], insert bi usedTracks) ! k = - 1"
    proof
      fix k assume k: "k \<in> set rest"
      with rest have "k \<noteq> i" by blast
      with restfree k show "k < length ds \<and> fst (assignments[i := bi], insert bi usedTracks) ! k = - 1"
        by simp
    qed
    from "2.IH"(1) [OF best [symmetric] True inv' rest(1) this] best True
    show ?thesis by simp
  next
    case False
    have "\<forall>k\<in>set rest. k < length ds \<and> fst (assignments, usedTracks) ! k = - 1"
      using restfree by simp
    from "2.IH"(2) [OF best [symmetric] False "2.prems"(1) rest(1) this] best False
    show ?thesis by auto
  qed
qed

lemma assocInv_init: "assocInv this ds (replicate (length ds) (- 1), {})"
  by (simp add: assocInv_def)

lemma associateDetections_inv:
  "assocInv this ds (associateLoop this ds [0..<length ds] (replicate (length ds) (- 1), {}))"
  by (rule associateLoop_inv [OF assocInv_init]) simp_all

lemma associateDetections_length: "length (associateDetections this ds) = length ds"
  using associateDetections_inv [of this ds]
  unfolding assocInv_def associateDetections_def by simp

text \<open>
  Claim C10. The list returned by \<open>associateDetections\<close> has one entry per detection;
  no two detections carry the same track index (an entry other than -1 differs from
  every other entry); and an entry other than -1 is an index into the track table whose
  track has an overlap of at least \<open>iouThreshold\<close> with the detection.
\<close>

theorem greedy_association_one_to_one:
  "length (associateDetections this ds) = length ds \<and>
   (\<forall>i<length ds. \<forall>j<length ds.
      i \<noteq> j \<and> associateDetections this ds ! i \<noteq> - 1 \<longrightarrow>
      associateDetections this ds ! i \<noteq> associateDetections this ds ! j) \<and>
   (\<forall>i<length ds. associateDetections this ds ! i \<noteq> - 1 \<longrightarrow>
      0 \<le> associateDetections this ds ! i \<and>
      nat (associateDetections this ds ! i) < length (tracks this) \<and>
      iouThreshold this \<le>
        calculate3DIoU (det_bbox (ds ! i))
          (trk_bbox (tracks this ! nat (associateDetections this ds ! i))))"
  using associateDetections_inv [of this ds]
  unfolding assocInv_def associateDetections_def by blast

lemma associate_twoTracks:
  "associateDetections twoTracks [det boxB', det boxA] = [1, 0]"
  by (simp add: associateDetections_def twoTracks_def newTrack_ix_def det_def boxA_def boxB_def
      boxB'_def mkBox_def calculate3DIoU_def calculateIntersection3D_def Let_def)

theorem greedy_association_one_to_one_witness:
  "associateDetections twoTracks [det boxB', det boxA] = [1, 0] \<and>
   iouThreshold twoTracks \<le> calculate3DIoU boxB' boxB \<and>
   iouThreshold twoTracks \<le> calculate3DIoU boxA boxA"
proof -
  let ?ds = "[det boxB', det boxA]"
  note e = associate_twoTracks
  from greedy_association_one_to_one [of twoTracks ?ds]
  have valid: "\<forall>i<length ?ds. associateDetections twoTracks ?ds ! i \<noteq> - 1 \<longrightarrow>
      iouThreshold twoTracks \<le>
        calculate3DIoU (det_bbox (?ds ! i))
          (trk_bbox (tracks twoTracks ! nat (associateDetections twoTracks ?ds ! i)))"
    by blast
  from valid [rule_format, of 0] have "iouThreshold twoTracks \<le> calculate3DIoU boxB' boxB"
    unfolding e by (simp add: twoTracks_def newTrack_ix_def det_def)
  moreover from valid [rule_format, of 1] have "iouThreshold twoTracks \<le> calculate3DIoU boxA boxA"
    unfolding e by (simp add: twoTracks_def newTrack_ix_def det_def)
  ultimately show ?thesis using e by simp
qed

section \<open>Properties of one frame\<close>

lemma updateLoop_length:
  "length (snd (updateLoop body ds asg idxs ts)) = length ts"
  by (induction idxs arbitrary: ts) (auto simp: Let_def split: prod.splits option.splits)

lemma updateLoop_no_error:
  assumes "\<forall>d t. fst (body d t) = None"
    and "\<forall>i\<in>set idxs. asg ! i = - 1 \<or> (0 \<le> asg ! i \<and> nat (asg ! i) < length ts)"
  shows "fst (updateLoop body ds asg idxs ts) = None"
  using assms(2)
proof (induction idxs arbitrary: ts)
  case Nil
  show ?case by simp
next
  case (Cons i rest)
  show ?case
  proof (cases "asg ! i = - 1")
    case True
    with Cons show ?thesis by simp
  next
    case False
    with Cons.prems have v: "0 \<le> asg ! i" "nat (asg ! i) < length ts" by auto
    obtain e t' where b: "body (ds ! i) (ts ! nat (asg ! i)) = (e, t')"
      by (cases "body (ds ! i) (ts ! nat (asg ! i))")
    with assms(1) have e: "e = None" by (metis fst_conv)
    have "\<forall>k\<in>set rest. asg ! k = - 1 \<or> (0 \<le> asg ! k \<and> nat (asg ! k) < length (ts[nat (asg ! i) := t']))"
      using Cons.prems by simp
    from Cons.IH [OF this] False v b e show ?thesis by (simp add: Let_def)
  qed
qed

lemma associateDetections_valid:
  "\<forall>i\<in>set [0..<length ds]. associateDetections this ds ! i = - 1 \<or>
     (0 \<le> associateDetections this ds ! i \<and>
      nat (associateDetections this ds ! i) < length (tracks this))"
  using associateDetections_inv [of this ds]
  unfolding assocInv_def associateDetections_def by auto

lemma updateTracks_ix_no_error:
  "fst (updateTracks_ix this ds (associateDetections this ds)) = None"
proof -
  have "fst (updateLoop matchTrack_ix ds (associateDetections this ds) [0..<length ds] (tracks this)) = None"
    by (rule updateLoop_no_error) (simp_all add: matchTrack_ix_def associateDetections_valid del: set_upt)
  then show ?thesis
    by (auto simp add: updateTracks_ix_def split: prod.splits)
qed

text \<open>
  Claim C7, for the version of the class that has \<open>update\<close>. On every tracker state and
  detection list, \<open>update\<close> and \<open>step\<close> leave the tracker in the same state (both run
  predict, associate, update of the matched tracks, spawn and prune, in this order), and
  \<open>update\<close> returns the tracks of that state whose \<open>hits\<close> are at least \<open>minHits\<close>,
  in table order. Neither call throws.
\<close>

theorem update_same_pipeline_as_step:
  "snd (update_ix this ds) = snd (step_ix this ds) \<and>
   fst (update_ix this ds) =
     Inr (filter (\<lambda>track. minHits this \<le> real_of_int (hits track))
            (tracks (snd (update_ix this ds)))) \<and>
   (\<exists>out. fst (step_ix this ds) = Inr out)"
proof -
  let ?s1 = "predictTracks_ix this"
  let ?asg = "associateDetections ?s1 ds"
  obtain e s2 where u: "updateTracks_ix ?s1 ds ?asg = (e, s2)"
    by (cases "updateTracks_ix ?s1 ds ?asg")
  with updateTracks_ix_no_error [of ?s1 ds] have e: "e = None" by simp
  obtain m s3 where c: "createNewTracks_ix s2 ds ?asg = (m, s3)"
    by (cases "createNewTracks_ix s2 ds ?asg")
  have mh2: "minHits s2 = minHits this"
    using u by (auto simp: updateTracks_ix_def predictTracks_ix_def split: prod.splits)
  have mh3: "minHits s3 = minHits s2"
    using c by (auto simp: createNewTracks_ix_def split: prod.splits)
  show ?thesis
    using u e c mh2 mh3
    by (simp add: update_ix_def step_ix_def Let_def deleteOldTracks_def)
qed

lemma updateLoop_ids:
  assumes "\<forall>d t. trk_id (snd (body d t)) = trk_id t"
  shows "map trk_id (snd (updateLoop body ds asg idxs ts)) = map trk_id ts"
proof (induction idxs arbitrary: ts)
  case Nil
  show ?case by simp
next
  case (Cons i rest)
  have "map trk_id (ts[nat (asg ! i) := snd (body (ds ! i) (ts ! nat (asg ! i)))]) =
        (map trk_id ts)[nat (asg ! i) := trk_id (ts ! nat (asg ! i))]"
    using assms by (simp add: map_update)
  also have "\<dots> = map trk_id (ts[nat (asg ! i) := ts ! nat (asg ! i)])"
    by (simp only: map_update)
  finally have upd:
    "map trk_id (ts[nat (asg ! i) := snd (body (ds ! i) (ts ! nat (asg ! i)))]) = map trk_id ts"
    by simp
  show ?case
  proof (cases "asg ! i \<noteq> - 1 \<and> 0 \<le> asg ! i \<and> nat (asg ! i) < length ts")
    case True
    obtain e t' where b: "body (ds ! i) (ts ! nat (asg ! i)) = (e, t')"
      by (cases "body (ds ! i) (ts ! nat (asg ! i))")
    from upd b have u: "map trk_id (ts[nat (asg ! i) := t']) = map trk_id ts" by simp
    show ?thesis
    proof (cases e)
      case None
      with True b Cons.IH [of "ts[nat (asg ! i) := t']"] u show ?thesis by (simp add: Let_def)
    next
      case (Some err)
      with True b u show ?thesis by (simp add: Let_def)
    qed
  next
    case False
    with Cons.IH [of ts] show ?thesis by (auto simp: Let_def)
  qed
qed

lemma updateLoop_untouched:
  assumes "\<forall>i\<in>set idxs. asg ! i \<noteq> int p"
  shows "snd (updateLoop body ds asg idxs ts) ! p = ts ! p"
  using assms
proof (induction idxs arbitrary: ts)
  case Nil
  show ?case by simp
next
  case (Cons i rest)
  from Cons.prems have ne: "asg ! i \<noteq> int p" and rest: "\<forall>k\<in>set rest. asg ! k \<noteq> int p"
    by simp_all
  show ?case
  proof (cases "asg ! i \<noteq> - 1 \<and> 0 \<le> asg ! i \<and> nat (asg ! i) < length ts")
    case True
    with ne have np: "nat (asg ! i) \<noteq> p" by auto
    obtain e t' where b: "body (ds ! i) (ts ! nat (asg ! i)) = (e, t')"
      by (cases "body (ds ! i) (ts ! nat (asg ! i))")
    show ?thesis
    proof (cases e)
      case None
      with True b Cons.IH [OF rest, of "ts[nat (asg ! i) := t']"] np show ?thesis
        by (simp add: Let_def)
    next
      case (Some err)
      with True b np show ?thesis by (simp add: Let_def)
    qed
  next
    case False
    with Cons.IH [OF rest, of ts] show ?thesis by (auto simp: Let_def)
  qed
qed

lemma createLoop_spec:
  assumes mk: "\<forall>k d. trk_id (mk k d) = k"
  shows "createLoop mk ds asg idxs (m, ts, n) = (m', ts', n') \<Longrightarrow>
     \<exists>new. ts' = ts @ new \<and> map trk_id new = [n..n' - 1] \<and> (\<forall>t\<in>set new. \<exists>k d. t = mk k d) \<and>
           n \<le> n' \<and> (\<forall>i v. m' i = Some v \<longrightarrow> m i = Some v \<or> (n \<le> v \<and> v < n'))"
proof (induction idxs arbitrary: m ts n)
  case Nil
  then show ?case by simp
next
  case (Cons i rest)
  show ?case
  proof (cases "asg ! i = - 1")
    case True
    with Cons.prems have
      "createLoop mk ds asg rest (m(i \<mapsto> n), ts @ [mk n (ds ! i)], n + 1) = (m', ts', n')"
      by simp
    from Cons.IH [OF this] obtain new where new:
      "ts' = (ts @ [mk n (ds ! i)]) @ new" "map trk_id new = [n + 1..n' - 1]"
      "\<forall>t\<in>set new. \<exists>k d. t = mk k d" "n + 1 \<le> n'"
      "\<forall>j v. m' j = Some v \<longrightarrow> (m(i \<mapsto> n)) j = Some v \<or> (n + 1 \<le> v \<and> v < n')"
      by blast
    have ids: "map trk_id (mk n (ds ! i) # new) = [n..n' - 1]"
      using new(2,4) mk by (simp add: upto_rec1 [of n "n' - 1"])
    have mp: "\<forall>j v. m' j = Some v \<longrightarrow> m j = Some v \<or> (n \<le> v \<and> v < n')"
    proof (intro allI impI)
      fix j v assume "m' j = Some v"
      with new(5) have "(m(i \<mapsto> n)) j = Some v \<or> (n + 1 \<le> v \<and> v < n')" by blast
      with new(4) show "m j = Some v \<or> (n \<le> v \<and> v < n')"
        by (cases "j = i") auto
    qed
    show ?thesis
    proof (intro exI [of _ "mk n (ds ! i) # new"] conjI)
      show "ts' = ts @ mk n (ds ! i) # new" using new(1) by simp
      show "map trk_id (mk n (ds ! i) # new) = [n..n' - 1]" by (rule ids)
      show "\<forall>t\<in>set (mk n (ds ! i) # new). \<exists>k d. t = mk k d" using new(3) by auto
      show "n \<le> n'" using new(4) by simp
      show "\<forall>i v. m' i = Some v \<longrightarrow> m i = Some v \<or> (n \<le> v \<and> v < n')" by (rule mp)
    qed
  next
    case False
    with Cons.prems have "createLoop mk ds asg rest (m, ts, n) = (m', ts', n')" by simp
    from Cons.IH [OF this] show ?thesis .
  qed
qed

lemma assembleLoop_ids:
  "\<forall>out\<in>set (assembleLoop ts ds asg m idxs acc).
     out \<in> set acc \<or> trackId out \<in> trk_id ` set ts \<or> (\<exists>i. m i = Some (trackId out))"
proof (induction idxs arbitrary: acc)
  case Nil
  show ?case by simp
next
  case (Cons i rest)
  show ?case
  proof (cases "if asg ! i \<noteq> - 1 then trackIdAt ts (asg ! i) else None")
    case (Some tid)
    then have "tid \<in> trk_id ` set ts"
      by (auto simp: trackIdAt_def split: if_splits)
    with Cons.IH [of "acc @ [tracked (ds ! i) tid]"] Some show ?thesis
      by (auto simp: Let_def tracked_def)
  next
    case None
    note none = this
    show ?thesis
    proof (cases "m i")
      case None
      with none Cons.IH [of acc] show ?thesis by (simp add: Let_def)
    next
      case (Some cid)
      with none Cons.IH [of "acc @ [tracked (ds ! i) cid]"] show ?thesis
        by (auto simp: Let_def tracked_def)
    qed
  qed
qed

lemma predictTrack_id: "trk_id (predictTrack t) = trk_id t"
  by (simp add: predictTrack_def Let_def split: option.splits prod.splits)

lemma predictTracks_facts:
  "map trk_id (tracks (predictTracks this)) = map trk_id (tracks this)"
  "nextTrackId (predictTracks this) = nextTrackId this"
  "maxAge (predictTracks this) = maxAge this"
  by (simp_all add: predictTracks_def predictTrack_id)

lemma predictTracks_ix_facts:
  "map trk_id (tracks (predictTracks_ix this)) = map trk_id (tracks this)"
  "nextTrackId (predictTracks_ix this) = nextTrackId this"
  "maxAge (predictTracks_ix this) = maxAge this"
  by (simp_all add: predictTracks_ix_def predictTrack_ix_def)

lemma matchTrack_id: "trk_id (snd (matchTrack d t)) = trk_id t"
  by (simp add: matchTrack_def Let_def split: option.splits sum.splits)

lemma matchTrack_ix_id: "trk_id (snd (matchTrack_ix d t)) = trk_id t"
  by (simp add: matchTrack_ix_def)

lemma updateTracks_facts:
  assumes "updateTracks this ds asg = (e, s2)"
  shows "map trk_id (tracks s2) = map trk_id (tracks this)"
    and "nextTrackId s2 = nextTrackId this" and "maxAge s2 = maxAge this"
proof -
  from assms have s2: "s2 = this\<lparr>tracks :=
      snd (updateLoop matchTrack ds asg [0..<length ds] (tracks this))\<rparr>"
    by (auto simp: updateTracks_def split: prod.splits)
  show "map trk_id (tracks s2) = map trk_id (tracks this)"
    unfolding s2 using updateLoop_ids [of matchTrack] by (simp add: matchTrack_id)
  show "nextTrackId s2 = nextTrackId this" "maxAge s2 = maxAge this"
    unfolding s2 by simp_all
qed

lemma updateTracks_ix_facts:
  assumes "updateTracks_ix this ds asg = (e, s2)"
  shows "map trk_id (tracks s2) = map trk_id (tracks this)"
    and "nextTrackId s2 = nextTrackId this" and "maxAge s2 = maxAge this"
proof -
  from assms have s2: "s2 = this\<lparr>tracks :=
      snd (updateLoop matchTrack_ix ds asg [0..<length ds] (tracks this))\<rparr>"
    by (auto simp: updateTracks_ix_def split: prod.splits)
  show "map trk_id (tracks s2) = map trk_id (tracks this)"
    unfolding s2 using updateLoop_ids [of matchTrack_ix] by (simp add: matchTrack_ix_id)
  show "nextTrackId s2 = nextTrackId this" "maxAge s2 = maxAge this"
    unfolding s2 by simp_all
qed

lemma createNewTracks_facts:
  assumes "createNewTracks this ds asg = (m, s')"
  shows "\<exists>new. tracks s' = tracks this @ new \<and>
           map trk_id new = [nextTrackId this..nextTrackId s' - 1] \<and>
           (\<forall>t\<in>set new. \<exists>k d. t = newTrack k d) \<and>
           nextTrackId this \<le> nextTrackId s' \<and>
           (\<forall>i v. m i = Some v \<longrightarrow> nextTrackId this \<le> v \<and> v < nextTrackId s') \<and>
           maxAge s' = maxAge this"
proof -
  obtain ts' n' where c: "createLoop newTrack ds asg [0..<length ds]
      (Map.empty, tracks this, nextTrackId this) = (m, ts', n')"
    and s': "s' = this\<lparr>tracks := ts', nextTrackId := n'\<rparr>"
    using assms by (auto simp: createNewTracks_def split: prod.splits)
  have "\<forall>k d. trk_id (newTrack k d) = k" by (simp add: newTrack_def Let_def)
  from createLoop_spec [OF this c] show ?thesis unfolding s' by auto
qed

lemma createNewTracks_ix_facts:
  assumes "createNewTracks_ix this ds asg = (m, s')"
  shows "\<exists>new. tracks s' = tracks this @ new \<and>
           map trk_id new = [nextTrackId this..nextTrackId s' - 1] \<and>
           (\<forall>t\<in>set new. \<exists>k d. t = newTrack_ix k d) \<and>
           nextTrackId this \<le> nextTrackId s' \<and>
           (\<forall>i v. m i = Some v \<longrightarrow> nextTrackId this \<le> v \<and> v < nextTrackId s') \<and>
           maxAge s' = maxAge this"
proof -
  obtain ts' n' where c: "createLoop newTrack_ix ds asg [0..<length ds]
      (Map.empty, tracks this, nextTrackId this) = (m, ts', n')"
    and s': "s' = this\<lparr>tracks := ts', nextTrackId := n'\<rparr>"
    using assms by (auto simp: createNewTracks_ix_def split: prod.splits)
  have "\<forall>k d. trk_id (newTrack_ix k d) = k" by (simp add: newTrack_ix_def)
  from createLoop_spec [OF this c] show ?thesis unfolding s' by auto
qed

lemma assembleOutput_ids:
  assumes "out \<in> set (assembleOutput this ds asg m)"
  shows "trackId out \<in> track_ids this \<or> (\<exists>i. m i = Some (trackId out))"
  using assembleLoop_ids [of "tracks this" ds asg m "[0..<length ds]" "[]"] assms
  by (auto simp: assembleOutput_def track_ids_def)

text \<open>Old ids followed by fresh ids.\<close>

lemma idsBelow_extend:
  assumes old: "\<forall>i\<in>set olds. i < n" "distinct olds"
    and n: "n \<le> n'"
  shows "(\<forall>i\<in>set (olds @ [n..n' - 1]). i < n') \<and> distinct (olds @ [n..n' - 1])"
  using assms by (auto simp: distinct_upto)

lemma frame_facts_generic:
  assumes ids2: "map trk_id ts2 = map trk_id (tracks this)"
    and sub: "set ts3 \<subseteq> set ts2 \<union> set new" "distinct (map trk_id ts3)"
    and new: "map trk_id new = [nextTrackId this..n' - 1]" "nextTrackId this \<le> n'"
    and t: "t \<in> set ts3"
  shows "trk_id t \<in> track_ids this \<or> (nextTrackId this \<le> trk_id t \<and> trk_id t < n')"
proof -
  from t sub(1) consider "t \<in> set ts2" | "t \<in> set new" by blast
  then show ?thesis
  proof cases
    case 1
    then have "trk_id t \<in> set (map trk_id ts2)" by simp
    with ids2 show ?thesis by (auto simp: track_ids_def)
  next
    case 2
    then have "trk_id t \<in> set (map trk_id new)" by simp
    with new show ?thesis by auto
  qed
qed

lemma distinct_ids_filter_append:
  assumes "\<forall>i\<in>set (map trk_id ts2). i < n" "distinct (map trk_id ts2)"
    and "map trk_id new = [n..n' - 1]"
  shows "distinct (map trk_id (filter P (ts2 @ new)))" "distinct (map trk_id (filter P ts2 @ new))"
proof -
  have d: "distinct (map trk_id (ts2 @ new))"
    using assms by (auto simp: distinct_upto)
  then show "distinct (map trk_id (filter P (ts2 @ new)))"
    by (rule distinct_map_filter)
  have "distinct (map trk_id (filter P ts2))"
    using assms(2) by (rule distinct_map_filter)
  then show "distinct (map trk_id (filter P ts2 @ new))"
    using assms by (auto simp: distinct_upto)
qed

lemma step_frameSpec: "frameSpec step"
  unfolding frameSpec_def
proof (intro allI)
  fix this ds
  let ?s1 = "predictTracks this"
  let ?asg = "associateDetections ?s1 ds"
  obtain e s2 where u: "updateTracks ?s1 ds ?asg = (e, s2)"
    by (cases "updateTracks ?s1 ds ?asg")
  note f2 = updateTracks_facts [OF u]
  have ids2: "map trk_id (tracks s2) = map trk_id (tracks this)"
    and n2: "nextTrackId s2 = nextTrackId this"
    using f2 by (simp_all add: predictTracks_facts)
  show "nextTrackId this \<le> nextTrackId (snd (step this ds)) \<and>
        (\<forall>t\<in>set (tracks (snd (step this ds))).
           trk_id t \<in> track_ids this \<or>
           (nextTrackId this \<le> trk_id t \<and> trk_id t < nextTrackId (snd (step this ds)))) \<and>
        (\<forall>i\<in>output_ids (fst (step this ds)).
           i \<in> track_ids this \<or>
           (nextTrackId this \<le> i \<and> i < nextTrackId (snd (step this ds)))) \<and>
        (idsBelow this \<longrightarrow> idsBelow (snd (step this ds)))"
  proof (cases e)
    case (Some err)
    with u have st: "step this ds = (Inl err, s2)" by (simp add: step_def Let_def)
    have "\<forall>t\<in>set (tracks s2). trk_id t \<in> track_ids this"
    proof
      fix t assume "t \<in> set (tracks s2)"
      then have "trk_id t \<in> set (map trk_id (tracks s2))" by simp
      with ids2 show "trk_id t \<in> track_ids this" by (auto simp: track_ids_def)
    qed
    moreover have "idsBelow this \<longrightarrow> idsBelow s2"
      unfolding idsBelow_def ids2 n2 by simp
    ultimately show ?thesis using st n2 by (simp add: output_ids_def)
  next
    case None
    let ?s3 = "deleteOldTracks s2"
    obtain m s4 where c: "createNewTracks ?s3 ds ?asg = (m, s4)"
      by (cases "createNewTracks ?s3 ds ?asg")
    from None u c have st: "step this ds = (Inr (assembleOutput s4 ds ?asg m), s4)"
      by (simp add: step_def Let_def)
    have n3: "nextTrackId ?s3 = nextTrackId this" using n2 by (simp add: deleteOldTracks_def)
    from createNewTracks_facts [OF c] obtain new where new:
      "tracks s4 = tracks ?s3 @ new" "map trk_id new = [nextTrackId this..nextTrackId s4 - 1]"
      "nextTrackId this \<le> nextTrackId s4"
      "\<forall>i v. m i = Some v \<longrightarrow> nextTrackId this \<le> v \<and> v < nextTrackId s4"
      unfolding n3 by blast
    have sub: "set (tracks s4) \<subseteq> set (tracks s2) \<union> set new"
      using new(1) by (auto simp: deleteOldTracks_def)
    have tr: "\<And>t. t \<in> set (tracks s4) \<Longrightarrow> trk_id t \<in> track_ids this \<or>
        (nextTrackId this \<le> trk_id t \<and> trk_id t < nextTrackId s4)"
    proof -
      fix t assume "t \<in> set (tracks s4)"
      with sub consider "t \<in> set (tracks s2)" | "t \<in> set new" by blast
      then show "trk_id t \<in> track_ids this \<or>
        (nextTrackId this \<le> trk_id t \<and> trk_id t < nextTrackId s4)"
      proof cases
        case 1
        then have "trk_id t \<in> set (map trk_id (tracks s2))" by simp
        with ids2 show ?thesis by (auto simp: track_ids_def)
      next
        case 2
        then have "trk_id t \<in> set (map trk_id new)" by simp
        with new(2) show ?thesis by auto
      qed
    qed
    have out: "\<forall>i\<in>output_ids (fst (step this ds)).
           i \<in> track_ids this \<or> (nextTrackId this \<le> i \<and> i < nextTrackId s4)"
    proof
      fix i assume "i \<in> output_ids (fst (step this ds))"
      then obtain out where o: "out \<in> set (assembleOutput s4 ds ?asg m)" "i = trackId out"
        using st by (auto simp: output_ids_def)
      from assembleOutput_ids [OF o(1)] show
        "i \<in> track_ids this \<or> (nextTrackId this \<le> i \<and> i < nextTrackId s4)"
      proof
        assume "trackId out \<in> track_ids s4"
        then obtain t where "t \<in> set (tracks s4)" "trk_id t = trackId out"
          by (auto simp: track_ids_def)
        with tr [of t] o(2) show ?thesis by simp
      next
        assume "\<exists>k. m k = Some (trackId out)"
        with new(4) o(2) show ?thesis by blast
      qed
    qed
    have inv: "idsBelow this \<longrightarrow> idsBelow s4"
    proof
      assume a: "idsBelow this"
      then have old: "\<forall>i\<in>set (map trk_id (tracks s2)). i < nextTrackId this"
        "distinct (map trk_id (tracks s2))"
        unfolding ids2 by (auto simp: idsBelow_def)
      have "distinct (map trk_id (tracks s4))"
        unfolding new(1) deleteOldTracks_def
        using distinct_ids_filter_append(2) [OF old new(2)] by simp
      moreover have "\<forall>i\<in>set (map trk_id (tracks s4)). i < nextTrackId s4"
      proof
        fix i assume "i \<in> set (map trk_id (tracks s4))"
        then obtain t where t: "t \<in> set (tracks s4)" and i: "i = trk_id t" by auto
        from tr [OF t] show "i < nextTrackId s4"
        proof
          assume "trk_id t \<in> track_ids this"
          with a new(3) i show ?thesis by (auto simp: idsBelow_def track_ids_def)
        qed (simp add: i)
      qed
      ultimately show "idsBelow s4" unfolding idsBelow_def by blast
    qed
    show ?thesis using st new(3) tr out inv by simp
  qed
qed

section \<open>Properties of a run\<close>

lemma step_ix_frameSpec: "frameSpec step_ix"
  unfolding frameSpec_def
proof (intro allI)
  fix this ds
  let ?s1 = "predictTracks_ix this"
  let ?asg = "associateDetections ?s1 ds"
  obtain e s2 where u: "updateTracks_ix ?s1 ds ?asg = (e, s2)"
    by (cases "updateTracks_ix ?s1 ds ?asg")
  note f2 = updateTracks_ix_facts [OF u]
  have ids2: "map trk_id (tracks s2) = map trk_id (tracks this)"
    and n2: "nextTrackId s2 = nextTrackId this"
    using f2 by (simp_all add: predictTracks_ix_facts)
  from u updateTracks_ix_no_error [of ?s1 ds] have e: "e = None" by simp
  obtain m s3 where c: "createNewTracks_ix s2 ds ?asg = (m, s3)"
    by (cases "createNewTracks_ix s2 ds ?asg")
  let ?s4 = "deleteOldTracks s3"
  from e u c have st: "step_ix this ds = (Inr (assembleOutput ?s4 ds ?asg m), ?s4)"
    by (simp add: step_ix_def Let_def)
  from createNewTracks_ix_facts [OF c] obtain new where new:
    "tracks s3 = tracks s2 @ new" "map trk_id new = [nextTrackId this..nextTrackId s3 - 1]"
    "nextTrackId this \<le> nextTrackId s3"
    "\<forall>i v. m i = Some v \<longrightarrow> nextTrackId this \<le> v \<and> v < nextTrackId s3"
    unfolding n2 by blast
  have n4: "nextTrackId ?s4 = nextTrackId s3" by (simp add: deleteOldTracks_def)
  have sub: "set (tracks ?s4) \<subseteq> set (tracks s2) \<union> set new"
    using new(1) by (auto simp: deleteOldTracks_def)
  have tr: "\<And>t. t \<in> set (tracks ?s4) \<Longrightarrow> trk_id t \<in> track_ids this \<or>
      (nextTrackId this \<le> trk_id t \<and> trk_id t < nextTrackId s3)"
  proof -
    fix t assume "t \<in> set (tracks ?s4)"
    with sub consider "t \<in> set (tracks s2)" | "t \<in> set new" by blast
    then show "trk_id t \<in> track_ids this \<or>
      (nextTrackId this \<le> trk_id t \<and> trk_id t < nextTrackId s3)"
    proof cases
      case 1
      then have "trk_id t \<in> set (map trk_id (tracks s2))" by simp
      with ids2 show ?thesis by (auto simp: track_ids_def)
    next
      case 2
      then have "trk_id t \<in> set (map trk_id new)" by simp
      with new(2) show ?thesis by auto
    qed
  qed
  have out: "\<forall>i\<in>output_ids (fst (step_ix this ds)).
         i \<in> track_ids this \<or> (nextTrackId this \<le> i \<and> i < nextTrackId s3)"
  proof
    fix i assume "i \<in> output_ids (fst (step_ix this ds))"
    then obtain out where o: "out \<in> set (assembleOutput ?s4 ds ?asg m)" "i = trackId out"
      using st by (auto simp: output_ids_def)
    from assembleOutput_ids [OF o(1)] show
      "i \<in> track_ids this \<or> (nextTrackId this \<le> i \<and> i < nextTrackId s3)"
    proof
      assume "trackId out \<in> track_ids ?s4"
      then obtain t where "t \<in> set (tracks ?s4)" "trk_id t = trackId out"
        by (auto simp: track_ids_def)
      with tr [of t] o(2) show ?thesis by simp
    next
      assume "\<exists>k. m k = Some (trackId out)"
      with new(4) o(2) show ?thesis by blast
    qed
  qed
  have inv: "idsBelow this \<longrightarrow> idsBelow ?s4"
  proof
    assume a: "idsBelow this"
    then have old: "\<forall>i\<in>set (map trk_id (tracks s2)). i < nextTrackId this"
      "distinct (map trk_id (tracks s2))"
      unfolding ids2 by (auto simp: idsBelow_def)
    have "distinct (map trk_id (tracks ?s4))"
      unfolding deleteOldTracks_def
      using distinct_ids_filter_append(1) [OF old new(2)] by (simp add: new(1))
    moreover have "\<forall>i\<in>set (map trk_id (tracks ?s4)). i < nextTrackId ?s4"
    proof
      fix i assume "i \<in> set (map trk_id (tracks ?s4))"
      then obtain t where t: "t \<in> set (tracks ?s4)" and i: "i = trk_id t" by auto
      from tr [OF t] show "i < nextTrackId ?s4"
      proof
        assume "trk_id t \<in> track_ids this"
        with a new(3) i n4 show ?thesis by (auto simp: idsBelow_def track_ids_def)
      qed (simp add: i n4)
    qed
    ultimately show "idsBelow ?s4" unfolding idsBelow_def by blast
  qed
  show "nextTrackId this \<le> nextTrackId (snd (step_ix this ds)) \<and>
        (\<forall>t\<in>set (tracks (snd (step_ix this ds))).
           trk_id t \<in> track_ids this \<or>
           (nextTrackId this \<le> trk_id t \<and> trk_id t < nextTrackId (snd (step_ix this ds)))) \<and>
        (\<forall>i\<in>output_ids (fst (step_ix this ds)).
           i \<in> track_ids this \<or>
           (nextTrackId this \<le> i \<and> i < nextTrackId (snd (step_ix this ds)))) \<and>
        (idsBelow this \<longrightarrow> idsBelow (snd (step_ix this ds)))"
    unfolding st snd_conv fst_conv n4 using new(3) tr out [unfolded st fst_conv] inv by blast
qed

text \<open>Facts about a sequence of frames, for any step function that meets \<open>frameSpec\<close>.\<close>

lemma frameSpec_next:
  assumes "frameSpec stp"
  shows "nextTrackId this \<le> nextTrackId (snd (stp this ds))"
  using assms unfolding frameSpec_def by blast

lemma frameSpec_inv:
  assumes "frameSpec stp" "idsBelow this"
  shows "idsBelow (snd (stp this ds))"
  using assms unfolding frameSpec_def by blast

lemma frameSpec_tracks:
  assumes "frameSpec stp" "i \<in> track_ids (snd (stp this ds))"
  shows "i \<in> track_ids this \<or> (nextTrackId this \<le> i \<and> i < nextTrackId (snd (stp this ds)))"
proof -
  from assms(2) obtain t where "t \<in> set (tracks (snd (stp this ds)))" "i = trk_id t"
    by (auto simp: track_ids_def)
  with assms(1) show ?thesis unfolding frameSpec_def by blast
qed

lemma frameSpec_outputs:
  assumes "frameSpec stp" "i \<in> output_ids (fst (stp this ds))"
  shows "i \<in> track_ids this \<or> (nextTrackId this \<le> i \<and> i < nextTrackId (snd (stp this ds)))"
  using assms unfolding frameSpec_def by blast

lemma stepsFrom_next:
  assumes "frameSpec stp"
  shows "nextTrackId this \<le> nextTrackId (stepsFrom stp this fs)"
proof (induction fs arbitrary: this)
  case Nil
  show ?case by simp
next
  case (Cons f fs)
  from frameSpec_next [OF assms, of this f] Cons [of "snd (stp this f)"]
  show ?case by simp
qed

lemma stepsFrom_inv:
  assumes "frameSpec stp"
  shows "idsBelow this \<Longrightarrow> idsBelow (stepsFrom stp this fs)"
proof (induction fs arbitrary: this)
  case Nil
  then show ?case by simp
next
  case (Cons f fs)
  from Cons.IH [OF frameSpec_inv [OF assms Cons.prems, of f]] show ?case by simp
qed

lemma idsBelow_less:
  assumes "idsBelow this" "i \<in> track_ids this"
  shows "i < nextTrackId this"
  using assms by (auto simp: idsBelow_def track_ids_def)

lemma seenIds_below:
  assumes "frameSpec stp"
  shows "idsBelow this \<Longrightarrow> h \<in> seenIds stp this fs \<Longrightarrow> h < nextTrackId (stepsFrom stp this fs)"
proof (induction fs arbitrary: this)
  case Nil
  then show ?case by (simp add: idsBelow_less)
next
  case (Cons f fs)
  let ?s' = "snd (stp this f)"
  have mono: "nextTrackId ?s' \<le> nextTrackId (stepsFrom stp ?s' fs)"
    by (rule stepsFrom_next [OF assms])
  from Cons.prems(2) consider "h \<in> track_ids this" | "h \<in> output_ids (fst (stp this f))"
    | "h \<in> seenIds stp ?s' fs" by auto
  then show ?case
  proof cases
    case 1
    with idsBelow_less [OF Cons.prems(1)] frameSpec_next [OF assms, of this f] mono
    show ?thesis by fastforce
  next
    case 2
    from frameSpec_outputs [OF assms 2] idsBelow_less [OF Cons.prems(1), of h]
      frameSpec_next [OF assms, of this f] mono
    show ?thesis by fastforce
  next
    case 3
    from Cons.IH [OF frameSpec_inv [OF assms Cons.prems(1)] 3] show ?thesis by simp
  qed
qed

lemma idsBelow_init: "idsBelow (AB3DMOTTracker_init opts)"
  by (simp add: idsBelow_def AB3DMOTTracker_init_def fieldInitialisers_def Let_def
      split: option.splits)


lemmas geometry_defs = calculate3DIoU_def calculateIntersection3D_def mkBox_def
  boxA_def boxB_def boxB'_def det_def

lemmas tracker_ix_defs = step_ix_def update_ix_def predictTracks_ix_def predictTrack_ix_def
  associateDetections_def updateTracks_ix_def matchTrack_ix_def createNewTracks_ix_def
  newTrack_ix_def deleteOldTracks_def assembleOutput_def trackIdAt_def tracked_def
  AB3DMOTTracker_init_def fieldInitialisers_def nullish_def

lemma first_frame_ix:
  "step_ix (AB3DMOTTracker_init (Some shortLived)) [det boxA] = (Inr [tracked (det boxA) 1], oneTrack)"
  by (simp add: tracker_ix_defs geometry_defs oneTrack_def shortLived_def Let_def)


lemma frame1_ix:
  "stepsFrom step_ix (AB3DMOTTracker_init None) [[det boxA, det boxB]] = twoTracks"
  by (simp add: tracker_ix_defs geometry_defs twoTracks_def Let_def)

lemma frame2_ix:
  "fst (step_ix twoTracks [det boxB', det boxC]) =
     Inr [tracked (det boxB') 2, tracked (det boxC) 3]"
  by (simp add: tracker_ix_defs geometry_defs boxC_def twoTracks_def Let_def)


text \<open>
  Claim C5. Take any tracker built by the constructor and any sequence of calls of
  \<open>step\<close> on it (of either version of the class), and a further call that returns an output.
  Every entry of that output carries one track id, and this id is the id of a track that
  was in the table before the call or is greater than every id seen so far, in any track
  table or any output of the run. The same holds for every track in the table after the
  call, so an id that has been given out is never given to a new track, also after its
  track was deleted; and the ids in the table are pairwise distinct.
\<close>

theorem output_ids_old_or_fresh:
  assumes stp: "stp = step \<or> stp = step_ix"
    and s: "s = stepsFrom stp (AB3DMOTTracker_init opts) fs"
    and r: "stp s ds = (Inr out, s')"
  shows "(\<forall>d\<in>set out. trackId d \<in> track_ids s \<or>
            (\<forall>h\<in>seenIds stp (AB3DMOTTracker_init opts) fs. h < trackId d)) \<and>
         (\<forall>t\<in>set (tracks s'). trk_id t \<in> track_ids s \<or>
            (\<forall>h\<in>seenIds stp (AB3DMOTTracker_init opts) fs. h < trk_id t)) \<and>
         distinct (map trk_id (tracks s'))"
proof -
  from stp have fs: "frameSpec stp"
    using step_frameSpec step_ix_frameSpec by blast
  have inv: "idsBelow s" unfolding s by (rule stepsFrom_inv [OF fs idsBelow_init])
  have below: "\<And>h. h \<in> seenIds stp (AB3DMOTTracker_init opts) fs \<Longrightarrow> h < nextTrackId s"
    unfolding s by (rule seenIds_below [OF fs idsBelow_init])
  from r have s': "s' = snd (stp s ds)" and out: "Inr out = fst (stp s ds)" by simp_all
  have 1: "\<forall>d\<in>set out. trackId d \<in> track_ids s \<or>
            (\<forall>h\<in>seenIds stp (AB3DMOTTracker_init opts) fs. h < trackId d)"
  proof
    fix d assume "d \<in> set out"
    then have "trackId d \<in> output_ids (fst (stp s ds))"
      unfolding out [symmetric] by (simp add: output_ids_def)
    from frameSpec_outputs [OF fs this] below
    show "trackId d \<in> track_ids s \<or>
            (\<forall>h\<in>seenIds stp (AB3DMOTTracker_init opts) fs. h < trackId d)"
      by fastforce
  qed
  have 2: "\<forall>t\<in>set (tracks s'). trk_id t \<in> track_ids s \<or>
            (\<forall>h\<in>seenIds stp (AB3DMOTTracker_init opts) fs. h < trk_id t)"
  proof
    fix t assume "t \<in> set (tracks s')"
    then have "trk_id t \<in> track_ids s'" by (simp add: track_ids_def)
    from frameSpec_tracks [OF fs this [unfolded s']] below
    show "trk_id t \<in> track_ids s \<or>
            (\<forall>h\<in>seenIds stp (AB3DMOTTracker_init opts) fs. h < trk_id t)"
      by fastforce
  qed
  have "idsBelow s'" unfolding s' by (rule frameSpec_inv [OF fs inv])
  then have 3: "distinct (map trk_id (tracks s'))" by (simp add: idsBelow_def)
  from 1 2 3 show ?thesis by blast
qed

theorem output_ids_old_or_fresh_witness:
  "fst (step_ix (stepsFrom step_ix (AB3DMOTTracker_init None) [[det boxA, det boxB]])
          [det boxB', det boxC]) =
     Inr [tracked (det boxB') 2, tracked (det boxC) 3] \<and>
   track_ids (stepsFrom step_ix (AB3DMOTTracker_init None) [[det boxA, det boxB]]) = {1, 2} \<and>
   seenIds step_ix (AB3DMOTTracker_init None) [[det boxA, det boxB]] = {1, 2} \<and>
   distinct (map trk_id (tracks (snd (step_ix twoTracks [det boxB', det boxC]))))"
proof -
  let ?fs = "[[det boxA, det boxB]]"
  let ?ds = "[det boxB', det boxC]"
  let ?out = "[tracked (det boxB') 2, tracked (det boxC) 3]"
  have s: "twoTracks = stepsFrom step_ix (AB3DMOTTracker_init None) ?fs"
    by (simp only: frame1_ix)
  have r: "step_ix twoTracks ?ds = (Inr ?out, snd (step_ix twoTracks ?ds))"
    using frame2_ix by (simp add: prod_eq_iff)
  have ids: "track_ids twoTracks = {1, 2}"
    by (auto simp: track_ids_def twoTracks_def newTrack_ix_def)
  have seen: "seenIds step_ix (AB3DMOTTracker_init None) ?fs = {1, 2}"
    using frame1_ix [simplified] ids
    by (auto simp: output_ids_def track_ids_def tracker_ix_defs geometry_defs Let_def)
  from output_ids_old_or_fresh [OF disjI2 [OF refl] s r]
  have "distinct (map trk_id (tracks (snd (step_ix twoTracks ?ds))))"
    by blast
  then show ?thesis
    using frame2_ix ids seen unfolding s [symmetric] by simp
qed

lemma step_ix_structure:
  fixes this ds
  defines "asg \<equiv> associateDetections (predictTracks_ix this) ds"
  defines "ts2 \<equiv> snd (updateLoop matchTrack_ix ds asg [0..<length ds]
                        (map predictTrack_ix (tracks this)))"
  shows "\<exists>new. tracks (snd (step_ix this ds)) =
             filter (\<lambda>t. real_of_int (timeSinceUpdate t) \<le> maxAge this) (ts2 @ new) \<and>
           map trk_id new = [nextTrackId this..nextTrackId (snd (step_ix this ds)) - 1] \<and>
           (\<forall>t\<in>set new. \<exists>k d. t = newTrack_ix k d) \<and>
           maxAge (snd (step_ix this ds)) = maxAge this"
proof -
  let ?s1 = "predictTracks_ix this"
  obtain e s2 where u: "updateTracks_ix ?s1 ds asg = (e, s2)"
    by (cases "updateTracks_ix ?s1 ds asg")
  from u updateTracks_ix_no_error [of ?s1 ds] have e: "e = None" by (simp add: asg_def)
  from u have t2: "tracks s2 = ts2"
    by (auto simp: updateTracks_ix_def ts2_def predictTracks_ix_def split: prod.splits)
  note f2 = updateTracks_ix_facts [OF u]
  have n2: "nextTrackId s2 = nextTrackId this" and m2: "maxAge s2 = maxAge this"
    using f2 by (simp_all add: predictTracks_ix_facts)
  obtain m s3 where c: "createNewTracks_ix s2 ds asg = (m, s3)"
    by (cases "createNewTracks_ix s2 ds asg")
  from e u c have st: "snd (step_ix this ds) = deleteOldTracks s3"
    by (simp add: step_ix_def Let_def asg_def)
  from createNewTracks_ix_facts [OF c] obtain new where new:
    "tracks s3 = ts2 @ new" "map trk_id new = [nextTrackId this..nextTrackId s3 - 1]"
    "\<forall>t\<in>set new. \<exists>k d. t = newTrack_ix k d" "maxAge s3 = maxAge this"
    unfolding n2 t2 m2 by blast
  show ?thesis
    unfolding st using new by (intro exI [of _ new]) (simp add: deleteOldTracks_def)
qed

lemma step_ix_maxAge: "maxAge (snd (step_ix this ds)) = maxAge this"
  using step_ix_structure [of this ds] by blast

lemma stepsFrom_ix_maxAge: "maxAge (stepsFrom step_ix this fs) = maxAge this"
  by (induction fs arbitrary: this) (simp_all add: step_ix_maxAge)

lemma unmatched_untouched:
  fixes this ds
  defines "s1 \<equiv> predictTracks_ix this"
  defines "asg \<equiv> associateDetections s1 ds"
  defines "ts2 \<equiv> snd (updateLoop matchTrack_ix ds asg [0..<length ds] (tracks s1))"
  assumes un: "i \<notin> matchedIds_ix this ds"
    and t: "t \<in> set ts2" "trk_id t = i"
  shows "\<exists>t0\<in>set (tracks this). trk_id t0 = i \<and> t = predictTrack_ix t0"
proof -
  have len: "length ts2 = length (tracks s1)"
    unfolding ts2_def by (rule updateLoop_length)
  have ids: "map trk_id ts2 = map trk_id (tracks s1)"
    unfolding ts2_def by (rule updateLoop_ids) (simp add: matchTrack_ix_id)
  from t(1) obtain p where p: "p < length ts2" "ts2 ! p = t"
    by (auto simp: in_set_conv_nth)
  from ids p len have "trk_id (tracks s1 ! p) = trk_id t"
    by (metis nth_map)
  with t(2) have idp: "trk_id (tracks s1 ! p) = i" by simp
  have lasg: "length asg = length ds"
    unfolding asg_def by (rule associateDetections_length)
  have free: "\<forall>k\<in>set [0..<length ds]. asg ! k \<noteq> int p"
  proof
    fix k assume "k \<in> set [0..<length ds]"
    then have k: "k < length asg" using lasg by simp
    show "asg ! k \<noteq> int p"
    proof
      assume eq: "asg ! k = int p"
      have "asg ! k \<in> set asg" using k by (rule nth_mem)
      with eq have "asg ! k \<in> set (filter (\<lambda>a. a \<noteq> - 1) asg)" by simp
      then have "trk_id (tracks s1 ! nat (asg ! k)) \<in> matchedIds_ix this ds"
        unfolding matchedIds_ix_def Let_def s1_def [symmetric] asg_def [symmetric] set_map
        by (rule imageI)
      with eq idp un show False by simp
    qed
  qed
  have "ts2 ! p = tracks s1 ! p"
    unfolding ts2_def by (rule updateLoop_untouched [OF free])
  with p have teq: "t = predictTrack_ix (tracks this ! p)"
    using len by (simp add: s1_def predictTracks_ix_def)
  have pl: "p < length (tracks this)" using p len by (simp add: s1_def predictTracks_ix_def)
  then have "tracks this ! p \<in> set (tracks this)" by simp
  moreover have "trk_id (tracks this ! p) = i"
    using teq t(2) by (simp add: predictTrack_ix_def)
  ultimately show ?thesis using teq by blast
qed

lemma unmatched_step:
  assumes below: "i < nextTrackId this"
    and tsu: "\<forall>t\<in>set (tracks this). trk_id t = i \<longrightarrow> timeSinceUpdate t = c"
    and un: "i \<notin> matchedIds_ix this ds"
  shows "(\<forall>t\<in>set (tracks (snd (step_ix this ds))). trk_id t = i \<longrightarrow> timeSinceUpdate t = c + 1) \<and>
         (i \<in> track_ids (snd (step_ix this ds)) \<longleftrightarrow>
            i \<in> track_ids this \<and> real_of_int (c + 1) \<le> maxAge this)"
proof -
  let ?asg = "associateDetections (predictTracks_ix this) ds"
  let ?ts2 = "snd (updateLoop matchTrack_ix ds ?asg [0..<length ds]
                        (map predictTrack_ix (tracks this)))"
  have ts1: "tracks (predictTracks_ix this) = map predictTrack_ix (tracks this)"
    by (simp add: predictTracks_ix_def)
  from step_ix_structure [of this ds] obtain new where new:
    "tracks (snd (step_ix this ds)) =
       filter (\<lambda>t. real_of_int (timeSinceUpdate t) \<le> maxAge this) (?ts2 @ new)"
    "map trk_id new = [nextTrackId this..nextTrackId (snd (step_ix this ds)) - 1]"
    by blast
  have newid: "\<And>t. t \<in> set new \<Longrightarrow> trk_id t \<noteq> i"
  proof -
    fix t assume "t \<in> set new"
    then have "trk_id t \<in> set (map trk_id new)" by simp
    with new(2) below show "trk_id t \<noteq> i" by auto
  qed
  have old: "\<And>t. t \<in> set ?ts2 \<Longrightarrow> trk_id t = i \<Longrightarrow> timeSinceUpdate t = c + 1"
  proof -
    fix t assume "t \<in> set ?ts2" "trk_id t = i"
    with unmatched_untouched [OF un, of t] obtain t0 where
      "t0 \<in> set (tracks this)" "trk_id t0 = i" "t = predictTrack_ix t0"
      unfolding ts1 by blast
    with tsu show "timeSinceUpdate t = c + 1" by (simp add: predictTrack_ix_def)
  qed
  have ids2: "map trk_id ?ts2 = map trk_id (tracks this)"
    using updateLoop_ids [of matchTrack_ix ds ?asg "[0..<length ds]" "map predictTrack_ix (tracks this)"]
    by (simp add: matchTrack_ix_id predictTrack_ix_def comp_def)
  have 1: "\<forall>t\<in>set (tracks (snd (step_ix this ds))). trk_id t = i \<longrightarrow> timeSinceUpdate t = c + 1"
    unfolding new(1) using old newid by auto
  have 2: "i \<in> track_ids (snd (step_ix this ds)) \<longleftrightarrow>
            i \<in> track_ids this \<and> real_of_int (c + 1) \<le> maxAge this"
  proof
    assume "i \<in> track_ids (snd (step_ix this ds))"
    then obtain t where t: "t \<in> set (?ts2 @ new)" "trk_id t = i"
      "real_of_int (timeSinceUpdate t) \<le> maxAge this"
      unfolding track_ids_def new(1) by auto
    with newid have t2: "t \<in> set ?ts2" by auto
    from old [OF t2 t(2)] t(3) have "real_of_int (c + 1) \<le> maxAge this" by simp
    moreover have "i \<in> set (map trk_id ?ts2)" using t2 t(2) by force
    ultimately show "i \<in> track_ids this \<and> real_of_int (c + 1) \<le> maxAge this"
      unfolding ids2 by (simp add: track_ids_def)
  next
    assume a: "i \<in> track_ids this \<and> real_of_int (c + 1) \<le> maxAge this"
    then have "i \<in> set (map trk_id ?ts2)" unfolding ids2 by (simp add: track_ids_def)
    then obtain t where t: "t \<in> set ?ts2" "trk_id t = i" by auto
    from old [OF t] a have "real_of_int (timeSinceUpdate t) \<le> maxAge this" by simp
    with t show "i \<in> track_ids (snd (step_ix this ds))"
      unfolding track_ids_def new(1) by force
  qed
  from 1 2 show ?thesis by blast
qed

lemma absent_forever:
  assumes "frameSpec stp"
  shows "i < nextTrackId this \<Longrightarrow> i \<notin> track_ids this \<Longrightarrow>
         i \<notin> track_ids (stepsFrom stp this fs)"
proof (induction fs arbitrary: this)
  case Nil
  then show ?case by simp
next
  case (Cons f fs)
  have "i \<notin> track_ids (snd (stp this f))"
    using frameSpec_tracks [OF assms, of i this f] Cons.prems by auto
  moreover have "i < nextTrackId (snd (stp this f))"
    using frameSpec_next [OF assms, of this f] Cons.prems(1) by simp
  ultimately show ?case using Cons.IH by simp
qed

lemma unmatched_run:
  "i < nextTrackId this \<Longrightarrow> i \<in> track_ids this \<Longrightarrow>
   \<forall>t\<in>set (tracks this). trk_id t = i \<longrightarrow> timeSinceUpdate t = c \<Longrightarrow>
   neverMatched i this fs \<Longrightarrow> maxAge this = real m \<Longrightarrow> c \<le> int m \<Longrightarrow> n \<le> length fs \<Longrightarrow>
   (i \<in> track_ids (stepsFrom step_ix this (take n fs)) \<longleftrightarrow> c + int n \<le> int m)"
proof (induction fs arbitrary: this c n)
  case Nil
  then show ?case by simp
next
  case (Cons f fs)
  show ?case
  proof (cases n)
    case 0
    with Cons.prems show ?thesis by simp
  next
    case (Suc n')
    let ?s' = "snd (step_ix this f)"
    from Cons.prems(4) have un: "i \<notin> matchedIds_ix this f" and nm: "neverMatched i ?s' fs"
      by simp_all
    note st = unmatched_step [OF Cons.prems(1) Cons.prems(3) un]
    have below': "i < nextTrackId ?s'"
      using frameSpec_next [OF step_ix_frameSpec, of this f] Cons.prems(1) by simp
    have ma: "maxAge ?s' = real m" using Cons.prems(5) by (simp add: step_ix_maxAge)
    have n': "n' \<le> length fs" using Cons.prems(7) Suc by simp
    show ?thesis
    proof (cases "c + 1 \<le> int m")
      case True
      then have "real_of_int (c + 1) \<le> maxAge this"
        unfolding Cons.prems(5) by (metis of_int_le_iff of_int_of_nat_eq)
      with st Cons.prems(2) have in': "i \<in> track_ids ?s'" by blast
      from st have tsu': "\<forall>t\<in>set (tracks ?s'). trk_id t = i \<longrightarrow> timeSinceUpdate t = c + 1"
        by blast
      from Cons.IH [OF below' in' tsu' nm ma True n'] Suc show ?thesis
        by (simp add: algebra_simps)
    next
      case False
      then have "\<not> real_of_int (c + 1) \<le> maxAge this"
        unfolding Cons.prems(5) by (metis of_int_le_iff of_int_of_nat_eq)
      with st have "i \<notin> track_ids ?s'" by blast
      from absent_forever [OF step_ix_frameSpec below' this, of "take n' fs"] False Suc
      show ?thesis by simp
    qed
  qed
qed

lemma created_track:
  assumes inv: "idsBelow this"
    and i: "nextTrackId this \<le> i" "i < nextTrackId (snd (step_ix this ds))"
    and ma: "0 \<le> maxAge this"
  shows "i \<in> track_ids (snd (step_ix this ds)) \<and>
         (\<forall>t\<in>set (tracks (snd (step_ix this ds))). trk_id t = i \<longrightarrow> timeSinceUpdate t = 0)"
proof -
  let ?asg = "associateDetections (predictTracks_ix this) ds"
  let ?ts2 = "snd (updateLoop matchTrack_ix ds ?asg [0..<length ds]
                        (map predictTrack_ix (tracks this)))"
  from step_ix_structure [of this ds] obtain new where new:
    "tracks (snd (step_ix this ds)) =
       filter (\<lambda>t. real_of_int (timeSinceUpdate t) \<le> maxAge this) (?ts2 @ new)"
    "map trk_id new = [nextTrackId this..nextTrackId (snd (step_ix this ds)) - 1]"
    "\<forall>t\<in>set new. \<exists>k d. t = newTrack_ix k d"
    by blast
  have ids2: "map trk_id ?ts2 = map trk_id (tracks this)"
    using updateLoop_ids [of matchTrack_ix ds ?asg "[0..<length ds]" "map predictTrack_ix (tracks this)"]
    by (simp add: matchTrack_ix_id predictTrack_ix_def comp_def)
  have oldid: "\<And>t. t \<in> set ?ts2 \<Longrightarrow> trk_id t \<noteq> i"
  proof -
    fix t assume "t \<in> set ?ts2"
    then have "trk_id t \<in> set (map trk_id ?ts2)" by simp
    with inv have "trk_id t < nextTrackId this" unfolding ids2 idsBelow_def by blast
    with i(1) show "trk_id t \<noteq> i" by simp
  qed
  have newtsu: "\<And>t. t \<in> set new \<Longrightarrow> timeSinceUpdate t = 0"
    using new(3) by (auto simp: newTrack_ix_def)
  from i have "i \<in> set (map trk_id new)" unfolding new(2) by simp
  then obtain t where t: "t \<in> set new" "trk_id t = i" by auto
  with newtsu [OF t(1)] ma have "i \<in> track_ids (snd (step_ix this ds))"
    unfolding track_ids_def new(1) by force
  moreover have "\<forall>t\<in>set (tracks (snd (step_ix this ds))). trk_id t = i \<longrightarrow> timeSinceUpdate t = 0"
    unfolding new(1) using oldid newtsu by auto
  ultimately show ?thesis by blast
qed

lemma deleteOldTracks_removed_iff:
  assumes "t \<in> set (tracks this)"
  shows "t \<notin> set (tracks (deleteOldTracks this)) \<longleftrightarrow> maxAge this < real_of_int (timeSinceUpdate t)"
  using assms by (auto simp: deleteOldTracks_def)

text \<open>
  Claim C6. Pruning removes a track from the table exactly when its \<open>timeSinceUpdate\<close>
  exceeds \<open>maxAge\<close>. Consequently, with \<open>maxAge\<close> a natural number \<open>m\<close>, a track whose id
  is minted in a frame and that is matched in none of the following frames is in the table
  after the \<open>n\<close>-th following frame exactly when \<open>n \<le> m\<close>.
\<close>

theorem pruned_after_maxAge:
  fixes m :: nat
  assumes s0: "s0 = stepsFrom step_ix (AB3DMOTTracker_init opts) fs0"
    and sk: "sk = snd (step_ix s0 dk)"
    and i: "nextTrackId s0 \<le> i \<and> i < nextTrackId sk"
    and ma: "maxAge s0 = real m"
    and nm: "neverMatched i sk fs"
    and n: "n \<le> length fs"
  shows "(i \<in> track_ids (stepsFrom step_ix sk (take n fs)) \<longleftrightarrow> n \<le> m) \<and>
         (\<forall>this. \<forall>t\<in>set (tracks this).
            t \<notin> set (tracks (deleteOldTracks this)) \<longleftrightarrow>
            maxAge this < real_of_int (timeSinceUpdate t))"
proof -
  have inv: "idsBelow s0" unfolding s0
    by (rule stepsFrom_inv [OF step_ix_frameSpec idsBelow_init])
  from ma have ma0: "0 \<le> maxAge s0" by simp
  from i have i1: "nextTrackId s0 \<le> i" and i2: "i < nextTrackId (snd (step_ix s0 dk))"
    unfolding sk by simp_all
  note cr = created_track [OF inv i1 i2 ma0]
  have mk: "maxAge sk = real m" unfolding sk using ma by (simp add: step_ix_maxAge)
  from cr have in_k: "i \<in> track_ids sk"
    and tsu_k: "\<forall>t\<in>set (tracks sk). trk_id t = i \<longrightarrow> timeSinceUpdate t = 0"
    unfolding sk by blast+
  from i have below: "i < nextTrackId sk" by simp
  from unmatched_run [OF below in_k tsu_k nm mk _ n] have
    "i \<in> track_ids (stepsFrom step_ix sk (take n fs)) \<longleftrightarrow> n \<le> m" by simp
  then show ?thesis using deleteOldTracks_removed_iff by blast
qed

theorem pruned_after_maxAge_witness:
  "1 \<in> track_ids (stepsFrom step_ix oneTrack (take 1 [[det boxB], [det boxB]]))  \<and>
   1 \<notin> track_ids (stepsFrom step_ix oneTrack (take 2 [[det boxB], [det boxB]]))"
proof -
  let ?s0 = "AB3DMOTTracker_init (Some shortLived)"
  let ?fs = "[[det boxB], [det boxB]]"
  have s0: "?s0 = stepsFrom step_ix ?s0 []" by simp
  have sk: "oneTrack = snd (step_ix ?s0 [det boxA])" by (simp add: first_frame_ix)
  have i: "nextTrackId ?s0 \<le> 1 \<and> 1 < nextTrackId oneTrack"
    by (simp add: oneTrack_def AB3DMOTTracker_init_def fieldInitialisers_def Let_def)
  have ma: "maxAge ?s0 = real 1"
    by (simp add: AB3DMOTTracker_init_def fieldInitialisers_def shortLived_def nullish_def Let_def)
  have nm: "neverMatched 1 oneTrack ?fs"
    by (auto simp add: matchedIds_ix_def tracker_ix_defs geometry_defs oneTrack_def Let_def)
  from pruned_after_maxAge [OF s0 sk i ma nm, of 1] pruned_after_maxAge [OF s0 sk i ma nm, of 2]
  show ?thesis by simp
qed

section \<open>Frames on concrete inputs\<close>

lemmas kalman_defs = predict_def kalman_update_def innovationCovariance_def measurementMatrix_def
  matrixInverse_def determinant3_def KalmanFilter3D_new_def transitionMatrix_def
  createProcessNoiseMatrix_def 

lemmas tracker_defs = step_def predictTracks_def predictTrack_def
  associateDetections_def updateTracks_def matchTrack_def createNewTracks_def newTrack_def
  deleteOldTracks_def assembleOutput_def trackIdAt_def tracked_def
  AB3DMOTTracker_init_def fieldInitialisers_def nullish_def getPosition_def getVelocity_def

lemma createIdentityMatrix_6:
  "createIdentityMatrix 6 =
     [[1, 0, 0, 0, 0, 0],
      [0, 1, 0, 0, 0, 0],
      [0, 0, 1, 0, 0, 0],
      [0, 0, 0, 1, 0, 0],
      [0, 0, 0, 0, 1, 0],
      [0, 0, 0, 0, 0, 1]]"
  by (simp add: createIdentityMatrix_def eval_nat_numeral)

lemmas matrix_eval = matrixMultiply_def matrixVectorMultiply_def matrixTranspose_def
  matrixAdd_def matrixSubtract_def createIdentityMatrix_6 columns_def

lemma predict_new:
  "predict 1 (KalmanFilter3D_new b (1 / 10) r) =
     \<lparr>state = [box_x b, box_y b, box_z b, 0, 0, 0], covariance = predictedCovariance,
      processNoise = 1 / 10, measurementNoise = r\<rparr>"
  by (simp add: kalman_defs matrix_eval predictedCovariance_def Let_def)

lemma update_predicted:
  "kalman_update (px, py, pz)
     \<lparr>state = [px, py, pz, 0, 0, 0], covariance = predictedCovariance,
      processNoise = 1 / 10, measurementNoise = 1 / 10\<rparr> =
   Inr \<lparr>state = [px, py, pz, 0, 0, 0], covariance = updatedCovariance,
        processNoise = 1 / 10, measurementNoise = 1 / 10\<rparr>"
  by (simp add: kalman_defs matrix_eval predictedCovariance_def updatedCovariance_def Let_def)

lemma kalman_frame1:
  "step (AB3DMOTTracker_init (Some noGrace)) [det boxA, det boxB, det boxC] =
     (Inr [tracked (det boxA) 1, tracked (det boxB) 2, tracked (det boxC) 3],
      \<lparr>tracks = [newTrack 1 (det boxA), newTrack 2 (det boxB), newTrack 3 (det boxC)],
       nextTrackId = 4, maxAge = 0, minHits = 3, iouThreshold = 3 / 10, frames = []\<rparr>)"
  by (simp add: tracker_defs noGrace_def Let_def)

lemma kalman_frame2:
  "fst (step \<lparr>tracks = [newTrack 1 (det boxA), newTrack 2 (det boxB), newTrack 3 (det boxC)],
       nextTrackId = 4, maxAge = 0, minHits = 3, iouThreshold = 3 / 10, frames = []\<rparr>
         [det boxB, det boxC]) = Inr [tracked (det boxB) 3]"
  by (simp add: tracker_defs predict_new update_predicted geometry_defs boxC_def Let_def)

lemma defaults_four_frames_ix:
  "stepsFrom step_ix (AB3DMOTTracker_init None)
     [[det boxA, det boxB], [det boxB], [det boxB], [det boxB]] =
   \<lparr>tracks =
      [\<lparr>trk_id = 1, trk_bbox = boxA, velocity = (0, 0, 0), age = 4, hits = 1,
        timeSinceUpdate = 3, kalmanFilter = None\<rparr>,
       \<lparr>trk_id = 2, trk_bbox = boxB, velocity = (0, 0, 0), age = 4, hits = 4,
        timeSinceUpdate = 0, kalmanFilter = None\<rparr>],
    nextTrackId = 3, maxAge = 3, minHits = 3, iouThreshold = 3 / 10, frames = []\<rparr>"
  by (simp add: tracker_ix_defs calculate3DIoU_def calculateIntersection3D_def mkBox_def
      boxA_def boxB_def det_def Let_def)

lemma defaults_fifth_frame_ix:
  "fst (step_ix
     \<lparr>tracks =
        [\<lparr>trk_id = 1, trk_bbox = boxA, velocity = (0, 0, 0), age = 4, hits = 1,
          timeSinceUpdate = 3, kalmanFilter = None\<rparr>,
         \<lparr>trk_id = 2, trk_bbox = boxB, velocity = (0, 0, 0), age = 4, hits = 4,
          timeSinceUpdate = 0, kalmanFilter = None\<rparr>],
      nextTrackId = 3, maxAge = 3, minHits = 3, iouThreshold = 3 / 10, frames = []\<rparr>
     [det boxB]) = Inr []"
  by (simp add: tracker_ix_defs calculate3DIoU_def calculateIntersection3D_def mkBox_def
      boxA_def boxB_def det_def Let_def)

text \<open>
  Claim C1 says that \<open>step\<close> returns one entry per detection, each with the id of the
  track the detection now belongs to. The code reads \<open>this.tracks[assignments[i]]\<close> after
  \<open>deleteOldTracks\<close> has removed tracks from the table, so the indices computed by
  \<open>associateDetections\<close> no longer point at the tracks they were computed for. With
  \<open>maxAge = 0\<close> and detections A, B, C in the first frame and B, C in the second, the
  later version returns a single entry: B with id 3, the id of the track of C, and no
  entry for C. With the default options the earlier version returns no entry for B in
  the fifth of the frames (A, B), (B), (B), (B), (B).
\<close>

theorem step_output_reads_stale_indices:
  "fst (step (AB3DMOTTracker_init (Some noGrace)) [det boxA, det boxB, det boxC]) =
     Inr [tracked (det boxA) 1, tracked (det boxB) 2, tracked (det boxC) 3] \<and>
   fst (step (snd (step (AB3DMOTTracker_init (Some noGrace)) [det boxA, det boxB, det boxC]))
          [det boxB, det boxC]) =
     Inr [tracked (det boxB) 3] \<and>
   fst (step_ix (stepsFrom step_ix (AB3DMOTTracker_init None)
                   [[det boxA, det boxB], [det boxB], [det boxB], [det boxB]])
          [det boxB]) =
     Inr []"
  by (simp only: kalman_frame1 kalman_frame2 defaults_four_frames_ix defaults_fifth_frame_ix
      fst_conv snd_conv simp_thms)

lemma negative_update_ix:
  "update_ix (AB3DMOTTracker_init (Some negativeAge)) [det boxB] =
     (Inr [], \<lparr>tracks = [], nextTrackId = 2, maxAge = - 1, minHits = 3, iouThreshold = 3 / 10,
               frames = []\<rparr>)"
  by (simp add: tracker_ix_defs negativeAge_def Let_def)

lemma negative_step_ix:
  "tracks (snd (step_ix (AB3DMOTTracker_init (Some negativeAge)) [det boxB])) = []"
  by (simp add: tracker_ix_defs negativeAge_def Let_def)

lemma negative_step:
  "tracks (snd (step (AB3DMOTTracker_init (Some negativeAge)) [det boxB])) =
     [newTrack 1 (det boxB)]"
  by (simp add: tracker_defs negativeAge_def Let_def)

text \<open>
  Claim C3 says that pruning comes before spawning in \<open>step\<close> and in \<open>update\<close>. In the
  earlier version of the class both methods spawn first and prune second, so the tracks
  spawned in a frame pass through the pruning filter of that frame: with \<open>maxAge = -1\<close>
  the track spawned for the only detection is removed at once, by \<open>update\<close> and by
  \<open>step\<close>. The later version of \<open>step\<close> prunes first and keeps the track.
\<close>

theorem update_prunes_newborn_track:
  "update_ix (AB3DMOTTracker_init (Some negativeAge)) [det boxB] =
     (Inr [], \<lparr>tracks = [], nextTrackId = 2, maxAge = - 1, minHits = 3, iouThreshold = 3 / 10,
               frames = []\<rparr>) \<and>
   tracks (snd (step_ix (AB3DMOTTracker_init (Some negativeAge)) [det boxB])) = [] \<and>
   tracks (snd (step (AB3DMOTTracker_init (Some negativeAge)) [det boxB])) =
     [newTrack 1 (det boxB)]"
  by (simp only: negative_update_ix negative_step_ix negative_step simp_thms)

section \<open>The estimator in a run\<close>

lemma trackerFilter_new: "trackerFilter (KalmanFilter3D_new b (1 / 10) (1 / 10))"
  unfolding trackerFilter_def
  by (intro conjI exI [of _ 1] exI [of _ 0])
    (simp_all add: KalmanFilter3D_new_def blockCovariance_def)

lemma predict_block:
  assumes "covariance kf = blockCovariance a b c" and "processNoise kf = 1 / 10"
  shows "covariance (predict 1 kf) =
     blockCovariance (a + 2 * b + c + 1 / 40) (b + c + 1 / 20) (c + 1 / 10)"
  using assms
  by (simp add: predict_def blockCovariance_def transitionMatrix_def
      createProcessNoiseMatrix_def matrix_defs Let_def)

lemma predict_params:
  fixes a b c :: real
  assumes "0 \<le> a" "0 \<le> b" "0 \<le> c" "b * b \<le> a * c"
  shows "(b + c + 1 / 20) * (b + c + 1 / 20) \<le> (a + 2 * b + c + 1 / 40) * (c + 1 / 10)"
proof -
  have "(a + 2 * b + c + 1 / 40) * (c + 1 / 10) - (b + c + 1 / 20) * (b + c + 1 / 20) =
      (a * c - b * b) + (1 / 10) * (a + b + c / 4)"
    by (simp add: algebra_simps)
  moreover have "0 \<le> (a * c - b * b) + (1 / 10) * (a + b + c / 4)"
    using assms by simp
  ultimately show ?thesis by linarith
qed

lemma trackerFilter_predict:
  assumes "trackerFilter kf"
  shows "trackerFilter (predict 1 kf)"
proof -
  from assms obtain a b c where p: "0 \<le> a" "0 \<le> b" "0 \<le> c" "b * b \<le> a * c"
    and cov: "covariance kf = blockCovariance a b c"
    and q: "processNoise kf = 1 / 10" and r: "measurementNoise kf = 1 / 10"
    unfolding trackerFilter_def by blast
  have "length (state (predict 1 kf)) = 6"
    by (simp add: predict_def Let_def matrixVectorMultiply_def transitionMatrix_def)
  moreover have "processNoise (predict 1 kf) = 1 / 10" "measurementNoise (predict 1 kf) = 1 / 10"
    using q r by (simp_all add: predict_def Let_def)
  moreover have "0 \<le> a + 2 * b + c + 1 / 40" "0 \<le> b + c + 1 / 20" "0 \<le> c + 1 / 10"
    using p by simp_all
  ultimately show ?thesis
    unfolding trackerFilter_def
    using predict_block [OF cov q] predict_params [OF p] by blast
qed

lemma innovationCovariance_block:
  assumes "covariance kf = blockCovariance a b c"
  shows "innovationCovariance kf =
     [[a + measurementNoise kf, 0, 0],
      [0, a + measurementNoise kf, 0],
      [0, 0, a + measurementNoise kf]]"
  using assms
  by (simp add: innovationCovariance_def blockCovariance_def measurementMatrix_def matrix_defs
      Let_def)

lemma matrixInverse_diagonal:
  fixes s :: real
  assumes "1 / 10 \<le> s"
  shows "matrixInverse [[s, 0, 0], [0, s, 0], [0, 0, s]] =
     Inr [[1 / s, 0, 0], [0, 1 / s, 0], [0, 0, 1 / s]]"
proof -
  have det: "determinant3 [[s, 0, 0], [0, s, 0], [0, 0, s]] = s * s * s"
    by (simp add: determinant3_def)
  have "1 / 10 * (1 / 10) \<le> s * s" using assms by (intro mult_mono) simp_all
  then have "1 / 10 * (1 / 10) * (1 / 10) \<le> s * s * s"
    using assms by (intro mult_mono) simp_all
  then have big: "\<not> \<bar>s * s * s\<bar> < 1 / 10 ^ 10" by simp
  have s0: "s \<noteq> 0" using assms by simp
  show ?thesis
    unfolding matrixInverse_def det Let_def using big s0
    by (simp add: columns_def)
qed

lemma corrected_covariance:
  fixes s :: real
  assumes "s \<noteq> 0"
  shows "matrixMultiply
      (matrixSubtract (createIdentityMatrix 6)
         (matrixMultiply
            (matrixMultiply (matrixMultiply (blockCovariance a b c) (matrixTranspose measurementMatrix))
               [[1 / s, 0, 0], [0, 1 / s, 0], [0, 0, 1 / s]])
            measurementMatrix))
      (blockCovariance a b c) =
     blockCovariance (a - a / s * a) (b - a / s * b) (c - b / s * b)"
  using assms
  by (simp add: blockCovariance_def measurementMatrix_def matrix_eval algebra_simps)

lemma update_block:
  assumes cov: "covariance kf = blockCovariance a b c" and a: "0 \<le> a"
    and r: "measurementNoise kf = 1 / 10"
  shows "\<exists>kf'. kalman_update m kf = Inr kf' \<and>
           covariance kf' =
             blockCovariance (a - a / (a + 1 / 10) * a) (b - a / (a + 1 / 10) * b)
               (c - b / (a + 1 / 10) * b) \<and>
           length (state kf') = length (state kf) \<and>
           processNoise kf' = processNoise kf \<and> measurementNoise kf' = measurementNoise kf"
proof -
  let ?s = "a + 1 / 10"
  have s: "1 / 10 \<le> ?s" "?s \<noteq> 0" using a by simp_all
  have inn: "innovationCovariance kf = [[?s, 0, 0], [0, ?s, 0], [0, 0, ?s]]"
    using innovationCovariance_block [OF cov] r by simp
  have inv: "matrixInverse (innovationCovariance kf) =
      Inr [[1 / ?s, 0, 0], [0, 1 / ?s, 0], [0, 0, 1 / ?s]]"
    unfolding inn by (rule matrixInverse_diagonal [OF s(1)])
  show ?thesis
    unfolding kalman_update_def Let_def inv cov
    by (simp add: corrected_covariance [OF s(2)])
qed

lemma update_params:
  fixes a b c :: real
  assumes "0 \<le> a" "0 \<le> b" "0 \<le> c" "b * b \<le> a * c"
  shows "0 \<le> a - a / (a + 1 / 10) * a \<and> 0 \<le> b - a / (a + 1 / 10) * b \<and>
         0 \<le> c - b / (a + 1 / 10) * b \<and>
         (b - a / (a + 1 / 10) * b) * (b - a / (a + 1 / 10) * b) \<le>
           (a - a / (a + 1 / 10) * a) * (c - b / (a + 1 / 10) * b)"
proof -
  define s where "s = a + 1 / 10"
  define k where "k = 1 / (10 * s)"
  have s: "0 < s" using assms(1) by (simp add: s_def)
  have k: "0 \<le> k" using s by (simp add: k_def)
  have one: "1 - a / s = k" using s by (simp add: k_def s_def field_simps)
  have "a - a / s * a = (1 - a / s) * a" by (simp add: algebra_simps)
  then have a': "a - a / s * a = k * a" by (simp only: one)
  have "b - a / s * b = (1 - a / s) * b" by (simp add: algebra_simps)
  then have b': "b - a / s * b = k * b" by (simp only: one)
  have "b * b \<le> c * s"
  proof -
    have "a * c \<le> c * s" using assms(3) by (simp add: s_def algebra_simps)
    with assms(4) show ?thesis by linarith
  qed
  then have "b * b / s \<le> c" using s by (simp add: pos_divide_le_eq)
  then have c': "0 \<le> c - b / s * b" by simp
  have "(a - a / s * a) * (c - b / s * b) - (k * b) * (k * b) = k * (a * c - b * b * (a / s + k))"
    unfolding a' by (simp add: algebra_simps)
  also have "a / s + k = 1" using one by simp
  finally have "(a - a / s * a) * (c - b / s * b) - (k * b) * (k * b) = k * (a * c - b * b)"
    by simp
  moreover have "0 \<le> k * (a * c - b * b)" using k assms(4) by simp
  ultimately have psd: "(k * b) * (k * b) \<le> (a - a / s * a) * (c - b / s * b)" by linarith
  have "0 \<le> k * a" "0 \<le> k * b" using k assms by simp_all
  with c' psd show ?thesis
    unfolding s_def [symmetric] a' b' by (simp add: a' [symmetric])
qed

lemma trackerFilter_update:
  assumes "trackerFilter kf"
  shows "\<exists>kf'. kalman_update m kf = Inr kf' \<and> trackerFilter kf'"
proof -
  from assms obtain a b c where p: "0 \<le> a" "0 \<le> b" "0 \<le> c" "b * b \<le> a * c"
    and cov: "covariance kf = blockCovariance a b c"
    and l: "length (state kf) = 6"
    and q: "processNoise kf = 1 / 10" and r: "measurementNoise kf = 1 / 10"
    unfolding trackerFilter_def by blast
  from update_block [OF cov p(1) r, of m] obtain kf' where kf':
    "kalman_update m kf = Inr kf'"
    "covariance kf' =
       blockCovariance (a - a / (a + 1 / 10) * a) (b - a / (a + 1 / 10) * b)
         (c - b / (a + 1 / 10) * b)"
    "length (state kf') = length (state kf)"
    "processNoise kf' = processNoise kf" "measurementNoise kf' = measurementNoise kf"
    by blast
  have "\<exists>a' b' c'. 0 \<le> a' \<and> 0 \<le> b' \<and> 0 \<le> c' \<and> b' * b' \<le> a' * c' \<and>
      covariance kf' = blockCovariance a' b' c'"
    using kf'(2) update_params [OF p] by blast
  then have "trackerFilter kf'"
    unfolding trackerFilter_def using kf'(3-5) l q r by simp
  with kf'(1) show ?thesis by blast
qed

lemma trackFilterOk_predictTrack:
  assumes "trackFilterOk t"
  shows "trackFilterOk (predictTrack t)"
proof (cases "kalmanFilter t")
  case None
  then show ?thesis by (simp add: trackFilterOk_def predictTrack_def Let_def)
next
  case (Some kf)
  with assms have "trackerFilter kf" by (simp add: trackFilterOk_def)
  then have "trackerFilter (predict 1 kf)" by (rule trackerFilter_predict)
  with Some show ?thesis
    by (simp add: trackFilterOk_def predictTrack_def Let_def split: prod.splits)
qed

lemma filtersOk_predictTracks:
  assumes "filtersOk this"
  shows "filtersOk (predictTracks this)"
  using assms
  by (simp add: filtersOk_def predictTracks_def list_all_iff trackFilterOk_predictTrack)

lemma trackFilterOk_matchTrack:
  assumes "trackFilterOk t"
  shows "fst (matchTrack d t) = None \<and> trackFilterOk (snd (matchTrack d t))"
proof (cases "kalmanFilter t")
  case None
  then show ?thesis by (simp add: trackFilterOk_def matchTrack_def Let_def)
next
  case (Some kf)
  with assms have "trackerFilter kf" by (simp add: trackFilterOk_def)
  from trackerFilter_update [OF this,
      of "(box_x (det_bbox d), box_y (det_bbox d), box_z (det_bbox d))"]
  obtain kf' where "kalman_update (box_x (det_bbox d), box_y (det_bbox d), box_z (det_bbox d)) kf
      = Inr kf'" "trackerFilter kf'"
    by blast
  with Some show ?thesis by (simp add: trackFilterOk_def matchTrack_def Let_def)
qed

lemma trackFilterOk_newTrack: "trackFilterOk (newTrack k d)"
  by (simp add: trackFilterOk_def newTrack_def Let_def trackerFilter_new)

lemma updateLoop_invariant:
  assumes body: "\<And>d t. Q t \<Longrightarrow> fst (body d t) = None \<and> Q (snd (body d t))"
  shows "list_all Q ts \<Longrightarrow>
     \<forall>i\<in>set idxs. asg ! i = - 1 \<or> (0 \<le> asg ! i \<and> nat (asg ! i) < length ts) \<Longrightarrow>
     fst (updateLoop body ds asg idxs ts) = None \<and>
     list_all Q (snd (updateLoop body ds asg idxs ts))"
proof (induction idxs arbitrary: ts)
  case Nil
  then show ?case by simp
next
  case (Cons i rest)
  show ?case
  proof (cases "asg ! i = - 1")
    case True
    with Cons show ?thesis by simp
  next
    case False
    with Cons.prems(2) have v: "0 \<le> asg ! i" "nat (asg ! i) < length ts" by auto
    let ?t = "ts ! nat (asg ! i)"
    from Cons.prems(1) v(2) have "Q ?t" by (simp add: list_all_length)
    from body [OF this, of "ds ! i"] obtain t' where b: "body (ds ! i) ?t = (None, t')" and q: "Q t'"
      by (cases "body (ds ! i) ?t") auto
    have all': "list_all Q (ts[nat (asg ! i) := t'])"
      using Cons.prems(1) q by (auto simp: list_all_iff dest: set_update_subset_insert [THEN subsetD])
    have "\<forall>k\<in>set rest. asg ! k = - 1 \<or>
        (0 \<le> asg ! k \<and> nat (asg ! k) < length (ts[nat (asg ! i) := t']))"
      using Cons.prems(2) by simp
    from Cons.IH [OF all' this] False v b show ?thesis by (simp add: Let_def)
  qed
qed

lemma updateTracks_never_fails:
  assumes "filtersOk this"
  shows "fst (updateTracks this ds (associateDetections this ds)) = None \<and>
         filtersOk (snd (updateTracks this ds (associateDetections this ds)))"
proof -
  have "fst (updateLoop matchTrack ds (associateDetections this ds) [0..<length ds] (tracks this)) = None \<and>
      list_all trackFilterOk
        (snd (updateLoop matchTrack ds (associateDetections this ds) [0..<length ds] (tracks this)))"
    using assms associateDetections_valid [of ds this]
    by (intro updateLoop_invariant trackFilterOk_matchTrack) (simp_all add: filtersOk_def)
  then show ?thesis
    by (auto simp: updateTracks_def filtersOk_def split: prod.splits)
qed

lemma step_keeps_filters:
  assumes "filtersOk this"
  shows "(\<exists>out. fst (step this ds) = Inr out) \<and> filtersOk (snd (step this ds))"
proof -
  let ?s1 = "predictTracks this"
  let ?asg = "associateDetections ?s1 ds"
  have ok1: "filtersOk ?s1" using assms by (rule filtersOk_predictTracks)
  obtain e s2 where u: "updateTracks ?s1 ds ?asg = (e, s2)"
    by (cases "updateTracks ?s1 ds ?asg")
  with updateTracks_never_fails [OF ok1, of ds] have e: "e = None" and ok2: "filtersOk s2"
    by simp_all
  let ?s3 = "deleteOldTracks s2"
  have ok3: "filtersOk ?s3"
    using ok2 by (simp add: filtersOk_def deleteOldTracks_def list_all_iff)
  obtain m s4 where c: "createNewTracks ?s3 ds ?asg = (m, s4)"
    by (cases "createNewTracks ?s3 ds ?asg")
  from createNewTracks_facts [OF c] obtain new where
    new: "tracks s4 = tracks ?s3 @ new" "\<forall>t\<in>set new. \<exists>k d. t = newTrack k d"
    by blast
  have "list_all trackFilterOk new"
    using new(2) by (auto simp: list_all_iff trackFilterOk_newTrack)
  with ok3 new(1) have ok4: "filtersOk s4" by (simp add: filtersOk_def)
  from u e c have "step this ds = (Inr (assembleOutput s4 ds ?asg m), s4)"
    by (simp add: step_def Let_def)
  with ok4 show ?thesis by simp
qed

lemma filtersOk_init: "filtersOk (AB3DMOTTracker_init opts)"
  by (simp add: filtersOk_def AB3DMOTTracker_init_def fieldInitialisers_def Let_def
      split: option.splits)

lemma filtersOk_stepsFrom:
  "filtersOk this \<Longrightarrow> filtersOk (stepsFrom step this fs)"
proof (induction fs arbitrary: this)
  case Nil
  then show ?case by simp
next
  case (Cons f fs)
  from step_keeps_filters [OF Cons.prems, of f] have "filtersOk (snd (step this f))" by blast
  from Cons.IH [OF this] show ?case by simp
qed


end
